theory Spec2Isabelle
  imports Main "HOL-Library.Sublist"
begin

section \<open>The concurrency-limited scheduler\<close>

text \<open>
  \<^verbatim>\<open>runTasksWithConcurrency(tasks, limit)\<close> keeps four variables (\<open>results\<close>,
  \<open>activeCount\<close>, \<open>taskIndex\<close>, \<open>errors\<close>) and returns a promise that only the
  closure \<open>runNext\<close> resolves. The tasks are functions returning promises; what the
  scheduler does with them depends only on their number and on when each returned
  promise settles, so the task list is represented by \<open>totalTasks = tasks.length\<close>
  and the settlements are events of the environment. The limit is an integer, as the
  concurrency levels of the script are, and a task that fails rejects with an \<^verbatim>\<open>Error\<close>
  object, whose message the \<^verbatim>\<open>.catch\<close> handler logs.

  The promise returned by the scheduler is built with \<^verbatim>\<open>new Promise((resolve) => ...)\<close>:
  it is pending until \<open>resolve\<close> is called; later calls of \<open>resolve\<close> change nothing.
\<close>

datatype 'a promise = Pending | Fulfilled 'a | Rejected string

text \<open>
  Besides the four variables of the source, the state records what the JavaScript
  runtime knows: \<open>running\<close> lists the tasks that were called and whose
  \<^verbatim>\<open>.then\<close>/\<^verbatim>\<open>.catch\<close> handler has not run yet, \<open>settled\<close> the tasks whose handler
  has run and whose \<^verbatim>\<open>.finally\<close> handler is still queued (both in the order they
  entered), and \<open>started\<close> is the log of \<open>currentTaskIndex\<close> in the order of the calls.
\<close>

record sched =
  results :: "bool list"
  activeCount :: int
  taskIndex :: nat
  errors :: nat
  promise :: "bool list promise"
  running :: "nat list"
  settled :: "nat list"
  started :: "nat list"

definition init_sched :: sched where
  "init_sched = \<lparr>results = [], activeCount = 0, taskIndex = 0, errors = 0,
     promise = Pending, running = [], settled = [], started = []\<rparr>"

text \<open>
  The \<^verbatim>\<open>while (activeCount < limit && taskIndex < totalTasks)\<close> loop of \<open>runNext\<close>:
  each round captures \<open>currentTaskIndex\<close>, increments both counters and calls the task.
\<close>

function launch :: "int \<Rightarrow> nat \<Rightarrow> sched \<Rightarrow> sched" where
  "launch limit totalTasks s =
     (if activeCount s < limit \<and> taskIndex s < totalTasks
      then launch limit totalTasks
             (s\<lparr>taskIndex := taskIndex s + 1,
                activeCount := activeCount s + 1,
                running := running s @ [taskIndex s],
                started := started s @ [taskIndex s]\<rparr>)
      else s)"
  by pat_completeness auto
termination
  by (relation "measure (\<lambda>(limit, totalTasks, s). totalTasks - taskIndex s)") auto

declare launch.simps [simp del]

definition resolve :: "sched \<Rightarrow> sched" where
  "resolve s = (case promise s of Pending \<Rightarrow> s\<lparr>promise := Fulfilled (results s)\<rparr> | _ \<Rightarrow> s)"

definition runNext :: "int \<Rightarrow> nat \<Rightarrow> sched \<Rightarrow> sched" where
  "runNext limit totalTasks s =
     (if length (results s) + errors s = totalTasks
      then resolve s
      else launch limit totalTasks s)"

text \<open>The body of the scheduler up to its first return: the initial call of \<open>runNext\<close>.\<close>

definition runTasksWithConcurrency :: "nat \<Rightarrow> int \<Rightarrow> sched" where
  "runTasksWithConcurrency totalTasks limit = runNext limit totalTasks init_sched"

text \<open>
  The handlers attached to the promise of task \<open>i\<close>. \<open>Resolves i\<close>: the promise was
  fulfilled and the \<^verbatim>\<open>.then\<close> handler pushes \<open>true\<close>. \<open>Rejects i\<close>: the promise was
  rejected and the \<^verbatim>\<open>.catch\<close> handler increments \<open>errors\<close>. \<open>Finally i\<close>: the
  \<^verbatim>\<open>.finally\<close> handler decrements \<open>activeCount\<close> and calls \<open>runNext\<close>. A handler
  that cannot run in the state (the task is not in flight, or its first handler has
  not run) gives \<open>None\<close>.
\<close>

datatype event = Resolves nat | Rejects nat | Finally nat

fun handler :: "int \<Rightarrow> nat \<Rightarrow> sched \<Rightarrow> event \<Rightarrow> sched option" where
  "handler limit totalTasks s (Resolves i) =
     (if i \<in> set (running s)
      then Some (s\<lparr>results := results s @ [True],
                   running := remove1 i (running s),
                   settled := settled s @ [i]\<rparr>)
      else None)"
| "handler limit totalTasks s (Rejects i) =
     (if i \<in> set (running s)
      then Some (s\<lparr>errors := errors s + 1,
                   running := remove1 i (running s),
                   settled := settled s @ [i]\<rparr>)
      else None)"
| "handler limit totalTasks s (Finally i) =
     (if i \<in> set (settled s)
      then Some (runNext limit totalTasks
                   (s\<lparr>activeCount := activeCount s - 1,
                      settled := remove1 i (settled s)\<rparr>))
      else None)"

fun handlers :: "int \<Rightarrow> nat \<Rightarrow> sched \<Rightarrow> event list \<Rightarrow> sched option" where
  "handlers limit totalTasks s [] = Some s"
| "handlers limit totalTasks s (e # es) =
     (case handler limit totalTasks s e of
        None \<Rightarrow> None
      | Some s' \<Rightarrow> handlers limit totalTasks s' es)"

text \<open>The state of a run after the handlers \<open>es\<close> have run, in that order.\<close>

definition run_sched :: "nat \<Rightarrow> int \<Rightarrow> event list \<Rightarrow> sched option" where
  "run_sched totalTasks limit es =
     handlers limit totalTasks (runTasksWithConcurrency totalTasks limit) es"

section \<open>The retry engine of the workers\<close>

text \<open>
  \<^verbatim>\<open>workerBenchmark.js\<close> and \<^verbatim>\<open>scripts/workerAccountBalance.js\<close> export one function
  each, run once per task by the worker pool. An attempt of the loop calls the contract
  (\<^verbatim>\<open>increment\<close> or \<^verbatim>\<open>deposit\<close>) and waits for the receipt inside one \<^verbatim>\<open>try\<close> block. What
  the ledger answers is the environment: attempt \<open>k\<close> either yields a receipt with a
  status and a hash (\<open>Confirmed\<close>) or some statement of the \<^verbatim>\<open>try\<close> block throws
  (\<open>Throws\<close>). Thrown values are the \<^verbatim>\<open>Error\<close> objects of the ethers library: a message
  string and possibly a \<open>code\<close>.
\<close>

record js_error =
  code :: "string option"
  message :: string

datatype attempt_outcome = Confirmed "nat option" string | Throws js_error

text \<open>
  The objects passed to a worker and returned by it. \<open>workerId\<close> and \<open>txIndex\<close> are
  copied from the one to the other; the deposit worker has one more field on each side.
\<close>

record task_ids =
  workerId :: nat
  txIndex :: nat

record passedData = task_ids +
  contractAddress :: string
  rpcUrl :: string
  privateKey :: string
  contractName :: string

record deposit_passedData = passedData +
  depositAmountWei :: int

record worker_result = task_ids +
  success :: bool
  error :: "string option"
  hash :: "string option"

record deposit_result = worker_result +
  amountDeposited :: string

text \<open>The variables of the retry loop, and the delays handed to \<^verbatim>\<open>setTimeout\<close> so far.\<close>

record 'r retry_state =
  attempt :: nat
  result :: 'r
  delays :: "nat list"

subsection \<open>Strings\<close>

text \<open>
  \<^verbatim>\<open>String.prototype.toLowerCase\<close> on the ASCII letters and
  \<^verbatim>\<open>String.prototype.includes\<close>: the argument occurs as a contiguous substring.
\<close>

definition toLowerCase :: "string \<Rightarrow> string" where
  "toLowerCase s =
     map (\<lambda>c. case map_of (zip ''ABCDEFGHIJKLMNOPQRSTUVWXYZ'' ''abcdefghijklmnopqrstuvwxyz'') c of
                 None \<Rightarrow> c
               | Some l \<Rightarrow> l) s"

fun js_includes :: "string \<Rightarrow> string \<Rightarrow> bool" where
  "js_includes [] sub = (sub = [])"
| "js_includes (c # cs) sub = (prefix sub (c # cs) \<or> js_includes cs sub)"

subsection \<open>Classification of a thrown error\<close>

text \<open>\<^verbatim>\<open>error.message ? error.message.toLowerCase() : ''\<close>\<close>

definition errorMessage :: "js_error \<Rightarrow> string" where
  "errorMessage e = (if message e \<noteq> [] then toLowerCase (message e) else [])"

definition isNonceError :: "js_error \<Rightarrow> bool" where
  "isNonceError e \<longleftrightarrow>
     code e = Some ''NONCE_EXPIRED''
     \<or> js_includes (errorMessage e) ''nonce too low''
     \<or> js_includes (errorMessage e) ''nonce has already been used''
     \<or> js_includes (errorMessage e) ''replacement transaction underpriced''"

definition isNetworkError :: "js_error \<Rightarrow> bool" where
  "isNetworkError e \<longleftrightarrow>
     js_includes (errorMessage e) ''failed to detect network''
     \<or> js_includes (errorMessage e) ''could not detect network''
     \<or> js_includes (errorMessage e) ''timeout''
     \<or> js_includes (errorMessage e) ''network error''"

subsection \<open>Loading the ABI\<close>

text \<open>
  \<open>getContractAbi\<close> reads the compiled artifact of the contract. \<open>artifacts name\<close> is
  what the file system holds: \<open>None\<close> when the file does not exist or is not JSON (both
  throw inside the function's \<^verbatim>\<open>try\<close>), otherwise the \<open>abi\<close> member. The \<^verbatim>\<open>catch\<close>
  block logs and throws a new error, so the function either returns the ABI or throws.
\<close>

type_synonym abi = "string list"

definition getContractAbi :: "(string \<Rightarrow> abi option) \<Rightarrow> string \<Rightarrow> js_error + abi" where
  "getContractAbi artifacts name =
     (case artifacts name of
        None \<Rightarrow> Inl \<lparr>code = None, message = ''Could not load ABI for '' @ name @ ''.''\<rparr>
      | Some contractAbi \<Rightarrow> Inr contractAbi)"

subsection \<open>The ethers library\<close>

text \<open>
  Before its loop a worker builds three objects of the ethers library:
  \<^verbatim>\<open>new ethers.JsonRpcProvider(rpcUrl)\<close>, \<^verbatim>\<open>new ethers.Wallet(privateKey, provider)\<close> and
  \<^verbatim>\<open>new ethers.Contract(contractAddress, contractAbi, signer)\<close>. The library is not
  part of the repository, so it is a parameter of the workers: each constructor returns
  its object or throws (for instance on a string that is no private key). What the
  contract object answers to the calls of the loop is the ledger.
\<close>

datatype provider = Provider string

datatype signer = Signer string provider

datatype contract = ContractAt string abi signer

record ethers =
  JsonRpcProvider :: "string \<Rightarrow> js_error + provider"
  Wallet :: "string \<Rightarrow> provider \<Rightarrow> js_error + signer"
  Contract :: "string \<Rightarrow> abi \<Rightarrow> signer \<Rightarrow> js_error + contract"

subsection \<open>The counter worker (\<^verbatim>\<open>workerBenchmark.js\<close>)\<close>

definition MAX_ATTEMPTS_Counter :: nat where
  "MAX_ATTEMPTS_Counter = 100"

definition RETRY_DELAY_MS_Counter :: nat where
  "RETRY_DELAY_MS_Counter = 1000"

text \<open>
  The \<^verbatim>\<open>while (attempt < MAX_ATTEMPTS)\<close> loop. Each \<^verbatim>\<open>break\<close> returns the state; the
  retry branch records the delay, stores the latest error and goes round again.
\<close>

function workerBenchmark_loop ::
  "(nat \<Rightarrow> attempt_outcome) \<Rightarrow> passedData \<Rightarrow> worker_result retry_state \<Rightarrow> worker_result retry_state"
where
  "workerBenchmark_loop ledger d st =
     (if attempt st < MAX_ATTEMPTS_Counter
      then
        (case ledger (attempt st + 1) of
           Confirmed status h \<Rightarrow>
             if status = Some 1
             then st\<lparr>attempt := attempt st + 1,
                     result := \<lparr>workerId = workerId d, txIndex = txIndex d, success = True,
                                 error = None, hash = Some h\<rparr>\<rparr>
             else st\<lparr>attempt := attempt st + 1,
                     result := \<lparr>workerId = workerId d, txIndex = txIndex d, success = False,
                                 error = Some ''Transaction reverted with status 0'',
                                 hash = Some h\<rparr>\<rparr>
         | Throws e \<Rightarrow>
             if (isNonceError e \<or> isNetworkError e) \<and> attempt st + 1 < MAX_ATTEMPTS_Counter
             then workerBenchmark_loop ledger d
                    (st\<lparr>attempt := attempt st + 1,
                        result := \<lparr>workerId = workerId d, txIndex = txIndex d, success = False,
                                    error = Some (message e), hash = None\<rparr>,
                        delays := delays st
                                    @ [RETRY_DELAY_MS_Counter * 2 ^ (attempt st + 1 - 1)]\<rparr>)
             else st\<lparr>attempt := attempt st + 1,
                     result := \<lparr>workerId = workerId d, txIndex = txIndex d, success = False,
                                 error = Some (message e), hash = None\<rparr>\<rparr>)
      else st)"
  by pat_completeness auto
termination
  by (relation "measure (\<lambda>(ledger, d, st). MAX_ATTEMPTS_Counter - attempt st)") auto

declare workerBenchmark_loop.simps [simp del]

text \<open>
  The exported function. Its steps 1 and 2 (provider and signer, ABI and contract
  instance) run before the loop and outside any \<^verbatim>\<open>try\<close>, so an error thrown by one of
  the three constructors or by \<open>getContractAbi\<close> leaves the function as a rejection
  (\<open>Inl\<close>). The loop starts with \<open>attempt = 0\<close> and the default result.
\<close>

definition workerBenchmark_start :: "passedData \<Rightarrow> worker_result retry_state" where
  "workerBenchmark_start d =
     \<lparr>attempt = 0,
      result = \<lparr>workerId = workerId d, txIndex = txIndex d, success = False,
                 error = Some ''Max attempts reached'', hash = None\<rparr>,
      delays = []\<rparr>"

definition workerBenchmark ::
  "ethers \<Rightarrow> (string \<Rightarrow> abi option) \<Rightarrow> (nat \<Rightarrow> attempt_outcome) \<Rightarrow> passedData
     \<Rightarrow> js_error + worker_result"
where
  "workerBenchmark eth artifacts ledger d =
     (case JsonRpcProvider eth (rpcUrl d) of
        Inl e \<Rightarrow> Inl e
      | Inr provider \<Rightarrow>
     (case Wallet eth (privateKey d) provider of
        Inl e \<Rightarrow> Inl e
      | Inr signer \<Rightarrow>
     (case getContractAbi artifacts (contractName d) of
        Inl e \<Rightarrow> Inl e
      | Inr contractAbi \<Rightarrow>
     (case Contract eth (contractAddress d) contractAbi signer of
        Inl e \<Rightarrow> Inl e
      | Inr counterContract \<Rightarrow>
          Inr (result (workerBenchmark_loop ledger d (workerBenchmark_start d)))))))"

subsection \<open>The deposit worker (\<^verbatim>\<open>scripts/workerAccountBalance.js\<close>)\<close>

text \<open>
  \<^verbatim>\<open>BigInt.prototype.toString()\<close>: the decimal digits, most significant first, after a
  minus sign for a negative value.
\<close>

definition digit_char :: "nat \<Rightarrow> char" where
  "digit_char d = ''0123456789'' ! d"

function digits :: "nat \<Rightarrow> string" where
  "digits n = (if n < 10 then [digit_char n] else digits (n div 10) @ [digit_char (n mod 10)])"
  by pat_completeness auto
termination
  by (relation "measure id") auto

declare digits.simps [simp del]

definition BigInt_toString :: "int \<Rightarrow> string" where
  "BigInt_toString x = (if x < 0 then CHR ''-'' # digits (nat (- x)) else digits (nat x))"

definition MAX_ATTEMPTS_AccountBalance :: nat where
  "MAX_ATTEMPTS_AccountBalance = 1000"

definition RETRY_DELAY_MS_AccountBalance :: nat where
  "RETRY_DELAY_MS_AccountBalance = 2000"

function workerAccountBalance_loop ::
  "(nat \<Rightarrow> attempt_outcome) \<Rightarrow> deposit_passedData \<Rightarrow> deposit_result retry_state
     \<Rightarrow> deposit_result retry_state"
where
  "workerAccountBalance_loop ledger d st =
     (if attempt st < MAX_ATTEMPTS_AccountBalance
      then
        (case ledger (attempt st + 1) of
           Confirmed status h \<Rightarrow>
             if status = Some 1
             then st\<lparr>attempt := attempt st + 1,
                     result := \<lparr>workerId = workerId d, txIndex = txIndex d, success = True,
                                 error = None, hash = Some h,
                                 amountDeposited = BigInt_toString (depositAmountWei d)\<rparr>\<rparr>
             else st\<lparr>attempt := attempt st + 1,
                     result := \<lparr>workerId = workerId d, txIndex = txIndex d, success = False,
                                 error = Some ''Transaction reverted with status 0'',
                                 hash = Some h, amountDeposited = ''0''\<rparr>\<rparr>
         | Throws e \<Rightarrow>
             if (isNonceError e \<or> isNetworkError e)
                \<and> attempt st + 1 < MAX_ATTEMPTS_AccountBalance
             then workerAccountBalance_loop ledger d
                    (st\<lparr>attempt := attempt st + 1,
                        result := \<lparr>workerId = workerId d, txIndex = txIndex d, success = False,
                                    error = Some (message e), hash = None,
                                    amountDeposited = ''0''\<rparr>,
                        delays := delays st
                                    @ [RETRY_DELAY_MS_AccountBalance * 2 ^ (attempt st + 1 - 1)]\<rparr>)
             else st\<lparr>attempt := attempt st + 1,
                     result := \<lparr>workerId = workerId d, txIndex = txIndex d, success = False,
                                 error = Some (message e), hash = None,
                                 amountDeposited = ''0''\<rparr>\<rparr>)
      else st)"
  by pat_completeness auto
termination
  by (relation "measure (\<lambda>(ledger, d, st). MAX_ATTEMPTS_AccountBalance - attempt st)") auto

declare workerAccountBalance_loop.simps [simp del]

definition workerAccountBalance_start :: "deposit_passedData \<Rightarrow> deposit_result retry_state" where
  "workerAccountBalance_start d =
     \<lparr>attempt = 0,
      result = \<lparr>workerId = workerId d, txIndex = txIndex d, success = False,
                 error = Some ''Max attempts reached'', hash = None, amountDeposited = ''0''\<rparr>,
      delays = []\<rparr>"

text \<open>The exported function, with the same steps 1 and 2 before the loop.\<close>

definition workerAccountBalance ::
  "ethers \<Rightarrow> (string \<Rightarrow> abi option) \<Rightarrow> (nat \<Rightarrow> attempt_outcome) \<Rightarrow> deposit_passedData
     \<Rightarrow> js_error + deposit_result"
where
  "workerAccountBalance eth artifacts ledger d =
     (case JsonRpcProvider eth (rpcUrl d) of
        Inl e \<Rightarrow> Inl e
      | Inr provider \<Rightarrow>
     (case Wallet eth (privateKey d) provider of
        Inl e \<Rightarrow> Inl e
      | Inr signer \<Rightarrow>
     (case getContractAbi artifacts (contractName d) of
        Inl e \<Rightarrow> Inl e
      | Inr contractAbi \<Rightarrow>
     (case Contract eth (contractAddress d) contractAbi signer of
        Inl e \<Rightarrow> Inl e
      | Inr accountBalanceContract \<Rightarrow>
          Inr (result (workerAccountBalance_loop ledger d (workerAccountBalance_start d)))))))"

section \<open>Aggregation and verification\<close>

subsection \<open>\<^verbatim>\<open>BigInt(string)\<close>\<close>

text \<open>
  \<^verbatim>\<open>BigInt\<close> applied to a string: white space is trimmed at both ends, the empty
  string is \<open>0\<close>, a decimal literal may carry a sign, a literal with prefix \<^verbatim>\<open>0x\<close>,
  \<^verbatim>\<open>0o\<close> or \<^verbatim>\<open>0b\<close> may not, and anything else throws a \<^verbatim>\<open>SyntaxError\<close> (\<open>None\<close>).
  Strings are ASCII here.
\<close>

definition isWhiteSpace :: "char \<Rightarrow> bool" where
  "isWhiteSpace c \<longleftrightarrow> c \<in> set [CHR 0x09, CHR 0x0A, CHR 0x0B, CHR 0x0C, CHR 0x0D, CHR '' '']"

definition trim :: "string \<Rightarrow> string" where
  "trim s = rev (dropWhile isWhiteSpace (rev (dropWhile isWhiteSpace s)))"

definition digit_of :: "char \<Rightarrow> nat option" where
  "digit_of c =
     map_of (zip ''0123456789abcdef'' [0, 1, 2, 3, 4, 5, 6, 7, 8, 9, 10, 11, 12, 13, 14, 15]
             @ zip ''ABCDEF'' [10, 11, 12, 13, 14, 15]) c"

fun parse_digits :: "nat \<Rightarrow> nat \<Rightarrow> string \<Rightarrow> nat option" where
  "parse_digits radix acc [] = Some acc"
| "parse_digits radix acc (c # cs) =
     (case digit_of c of
        None \<Rightarrow> None
      | Some v \<Rightarrow> if v < radix then parse_digits radix (acc * radix + v) cs else None)"

definition parse_number :: "nat \<Rightarrow> string \<Rightarrow> nat option" where
  "parse_number radix ds = (if ds = [] then None else parse_digits radix 0 ds)"

definition StringToBigInt :: "string \<Rightarrow> int option" where
  "StringToBigInt s =
     (let t = trim s in
      if t = [] then Some 0
      else if take 2 t \<in> set [''0x'', ''0X''] then map_option int (parse_number 16 (drop 2 t))
      else if take 2 t \<in> set [''0o'', ''0O''] then map_option int (parse_number 8 (drop 2 t))
      else if take 2 t \<in> set [''0b'', ''0B''] then map_option int (parse_number 2 (drop 2 t))
      else if hd t = CHR ''-'' then map_option (\<lambda>n. - int n) (parse_number 10 (tl t))
      else if hd t = CHR ''+'' then map_option int (parse_number 10 (tl t))
      else map_option int (parse_number 10 t))"

definition BigInt :: "string \<Rightarrow> js_error + int" where
  "BigInt s =
     (case StringToBigInt s of
        None \<Rightarrow> Inl \<lparr>code = None, message = ''Cannot convert '' @ s @ '' to a BigInt''\<rparr>
      | Some v \<Rightarrow> Inr v)"

subsection \<open>Preparing the tasks\<close>

text \<open>
  \<^verbatim>\<open>for (let i = 0; i < TOTAL_TRANSACTIONS; i++) xs.push(f(i))\<close>, the loop by which each
  of the three benchmark scripts builds its list of tasks.
\<close>

function for_loop :: "int \<Rightarrow> nat \<Rightarrow> (nat \<Rightarrow> 'a) \<Rightarrow> 'a list \<Rightarrow> 'a list" where
  "for_loop TOTAL_TRANSACTIONS i f xs =
     (if int i < TOTAL_TRANSACTIONS
      then for_loop TOTAL_TRANSACTIONS (i + 1) f (xs @ [f i])
      else xs)"
  by pat_completeness auto
termination
  by (relation "measure (\<lambda>(TOTAL_TRANSACTIONS, i, f, xs). nat TOTAL_TRANSACTIONS - i)") auto

declare for_loop.simps [simp del]

text \<open>
  The data of task \<open>i\<close> in \<^verbatim>\<open>runWorkerBenchmark.js\<close> and in
  \<^verbatim>\<open>scripts/runAccountBalanceBenchmark.js\<close>. The scripts stop before the loop when the
  list of private keys is empty; the worker counts they are configured with are positive.
\<close>

definition workerData ::
  "string list \<Rightarrow> nat \<Rightarrow> string \<Rightarrow> string \<Rightarrow> nat \<Rightarrow> passedData" where
  "workerData privateKeysToUse workerCount address url i =
     \<lparr>workerId = i mod workerCount, txIndex = i, contractAddress = address, rpcUrl = url,
      privateKey = privateKeysToUse ! (i mod length privateKeysToUse),
      contractName = ''Counter''\<rparr>"

definition deposit_workerData ::
  "string list \<Rightarrow> nat \<Rightarrow> string \<Rightarrow> string \<Rightarrow> int \<Rightarrow> nat \<Rightarrow> deposit_passedData" where
  "deposit_workerData privateKeysToUse workerCount address url amount i =
     \<lparr>workerId = i mod workerCount, txIndex = i, contractAddress = address, rpcUrl = url,
      privateKey = privateKeysToUse ! (i mod length privateKeysToUse),
      contractName = ''AccountBalance'', depositAmountWei = amount\<rparr>"

text \<open>
  \<^verbatim>\<open>await Promise.all(taskPromises)\<close>: the list of the values when every promise is
  fulfilled, a rejection as soon as one is rejected. Which rejection is reported depends
  on the timing; the first of the list stands for it.
\<close>

fun Promise_all :: "(js_error + 'a) list \<Rightarrow> js_error + 'a list" where
  "Promise_all [] = Inr []"
| "Promise_all (Inl e # ps) = Inl e"
| "Promise_all (Inr v # ps) = (case Promise_all ps of Inl e \<Rightarrow> Inl e | Inr vs \<Rightarrow> Inr (v # vs))"

subsection \<open>The ledger as the scripts observe it\<close>

text \<open>
  The two values the verification reads: \<^verbatim>\<open>counter.count()\<close>, a view function of the
  Counter contract, and \<^verbatim>\<open>provider.getBalance(contractAddress)\<close>, the Ether held by the
  AccountBalance contract. Reading them is the only access the verification makes.
\<close>

record chain =
  count :: int
  getBalance :: int

text \<open>
  A value received from a worker task: \<open>Obj r\<close> when
  \<^verbatim>\<open>res && typeof res.success === 'boolean'\<close> holds, \<open>Unexpected\<close> otherwise.
\<close>

datatype 'r js_value = Unexpected | Obj 'r

record verification =
  verified :: bool

record counter_verification = verification +
  finalCount :: int
  expectedCount :: int

subsection \<open>The scheduler benchmark\<close>

record concurrency_entry = counter_verification +
  successfulTx :: nat
  failedTx :: int

definition concurrency_verify :: "int \<Rightarrow> chain \<Rightarrow> int \<Rightarrow> bool list \<Rightarrow> concurrency_entry \<times> chain"
where
  "concurrency_verify TOTAL_TRANSACTIONS c initialCount rs =
     (let successfulTxCount = length rs
      in (\<lparr>verified = (count c = initialCount + int successfulTxCount),
           finalCount = count c,
           expectedCount = initialCount + int successfulTxCount,
           successfulTx = successfulTxCount,
           failedTx = TOTAL_TRANSACTIONS - int successfulTxCount\<rparr>, c))"

text \<open>
  One round of the script's loop over the concurrency levels: the tasks are prepared
  (task \<open>i\<close> uses signer \<open>i mod signers\<close>), the scheduler runs them, and when its promise
  is fulfilled the count is verified. \<open>None\<close>: the promise is not fulfilled after the
  handlers \<open>es\<close>.
\<close>

definition transactionTasks :: "int \<Rightarrow> nat \<Rightarrow> nat list" where
  "transactionTasks TOTAL_TRANSACTIONS signers =
     for_loop TOTAL_TRANSACTIONS 0 (\<lambda>i. i mod signers) []"

definition concurrency_run ::
  "int \<Rightarrow> nat \<Rightarrow> int \<Rightarrow> event list \<Rightarrow> int \<Rightarrow> chain \<Rightarrow> (concurrency_entry \<times> chain) option"
where
  "concurrency_run TOTAL_TRANSACTIONS signers concurrency es initialCount c =
     (case run_sched (length (transactionTasks TOTAL_TRANSACTIONS signers)) concurrency es of
        None \<Rightarrow> None
      | Some s \<Rightarrow>
          (case promise s of
             Fulfilled rs \<Rightarrow> Some (concurrency_verify TOTAL_TRANSACTIONS c initialCount rs)
           | _ \<Rightarrow> None))"

subsection \<open>The counter benchmark with workers (\<^verbatim>\<open>runWorkerBenchmark.js\<close>)\<close>

record worker_entry = counter_verification +
  reportedSuccess :: nat
  reportedFailures :: nat

record increment_totals =
  totalSuccessfulIncrements :: nat
  totalFailedIncrements :: nat

fun forEach_increments :: "worker_result js_value list \<Rightarrow> increment_totals \<Rightarrow> increment_totals"
where
  "forEach_increments [] t = t"
| "forEach_increments (Obj res # rs) t =
     (if success res
      then forEach_increments rs (t\<lparr>totalSuccessfulIncrements := totalSuccessfulIncrements t + 1\<rparr>)
      else forEach_increments rs (t\<lparr>totalFailedIncrements := totalFailedIncrements t + 1\<rparr>))"
| "forEach_increments (Unexpected # rs) t =
     forEach_increments rs (t\<lparr>totalFailedIncrements := totalFailedIncrements t + 1\<rparr>)"

definition worker_verify ::
  "chain \<Rightarrow> int \<Rightarrow> worker_result js_value list \<Rightarrow> worker_entry \<times> chain" where
  "worker_verify c initialCount rs =
     (let t = forEach_increments rs
                \<lparr>totalSuccessfulIncrements = 0, totalFailedIncrements = 0\<rparr>
      in (\<lparr>verified = (count c = initialCount + int (totalSuccessfulIncrements t)),
           finalCount = count c,
           expectedCount = initialCount + int (totalSuccessfulIncrements t),
           reportedSuccess = totalSuccessfulIncrements t,
           reportedFailures = totalFailedIncrements t\<rparr>, c))"

text \<open>
  One round of the loop over the worker counts. \<open>eth\<close> is the ethers library and
  \<open>artifacts\<close> the artifact directory the workers find, \<open>ledger i\<close> is what the ledger
  answers to the attempts of task \<open>i\<close>, \<open>c\<close> the chain when all tasks are done.
\<close>

definition worker_run ::
  "ethers \<Rightarrow> (string \<Rightarrow> abi option) \<Rightarrow> (nat \<Rightarrow> nat \<Rightarrow> attempt_outcome) \<Rightarrow> string list \<Rightarrow> int \<Rightarrow> nat
     \<Rightarrow> string \<Rightarrow> string \<Rightarrow> int \<Rightarrow> chain \<Rightarrow> js_error + worker_entry \<times> chain"
where
  "worker_run eth artifacts ledger privateKeysToUse TOTAL_TRANSACTIONS workerCount address url
       initialCount c =
     (case Promise_all
             (map (\<lambda>d. workerBenchmark eth artifacts (ledger (txIndex d)) d)
                (for_loop TOTAL_TRANSACTIONS 0
                   (workerData privateKeysToUse workerCount address url) [])) of
        Inl e \<Rightarrow> Inl e
      | Inr rs \<Rightarrow> Inr (worker_verify c initialCount (map Obj rs)))"

subsection \<open>The deposit benchmark (\<^verbatim>\<open>scripts/runAccountBalanceBenchmark.js\<close>)\<close>

record deposit_totals =
  totalSuccessfulDeposits :: nat
  totalFailedDeposits :: nat
  totalAmountDepositedWei :: int

fun forEach_deposits ::
  "deposit_result js_value list \<Rightarrow> deposit_totals \<Rightarrow> js_error + deposit_totals" where
  "forEach_deposits [] t = Inr t"
| "forEach_deposits (Obj res # rs) t =
     (if success res
      then (case BigInt (amountDeposited res) of
              Inl e \<Rightarrow> Inl e
            | Inr v \<Rightarrow>
                forEach_deposits rs
                  (t\<lparr>totalSuccessfulDeposits := totalSuccessfulDeposits t + 1,
                     totalAmountDepositedWei := totalAmountDepositedWei t + v\<rparr>))
      else forEach_deposits rs (t\<lparr>totalFailedDeposits := totalFailedDeposits t + 1\<rparr>))"
| "forEach_deposits (Unexpected # rs) t =
     forEach_deposits rs (t\<lparr>totalFailedDeposits := totalFailedDeposits t + 1\<rparr>)"

record deposit_entry = verification +
  finalContractEthBalance :: int
  expectedContractEthBalance :: int
  successfulDeposits :: nat
  failedDeposits :: nat
  totalDeposited :: int

definition deposit_verify ::
  "chain \<Rightarrow> int \<Rightarrow> deposit_result js_value list \<Rightarrow> js_error + deposit_entry \<times> chain" where
  "deposit_verify c initialContractEthBalance rs =
     (case forEach_deposits rs
             \<lparr>totalSuccessfulDeposits = 0, totalFailedDeposits = 0,
              totalAmountDepositedWei = 0\<rparr> of
        Inl e \<Rightarrow> Inl e
      | Inr t \<Rightarrow>
          Inr (\<lparr>verified = (getBalance c = initialContractEthBalance + totalAmountDepositedWei t),
                finalContractEthBalance = getBalance c,
                expectedContractEthBalance = initialContractEthBalance + totalAmountDepositedWei t,
                successfulDeposits = totalSuccessfulDeposits t,
                failedDeposits = totalFailedDeposits t,
                totalDeposited = totalAmountDepositedWei t\<rparr>, c))"

definition deposit_results ::
  "ethers \<Rightarrow> (string \<Rightarrow> abi option) \<Rightarrow> (nat \<Rightarrow> nat \<Rightarrow> attempt_outcome) \<Rightarrow> string list \<Rightarrow> int \<Rightarrow> nat
     \<Rightarrow> string \<Rightarrow> string \<Rightarrow> int \<Rightarrow> js_error + deposit_result list"
where
  "deposit_results eth artifacts ledger privateKeysToUse TOTAL_TRANSACTIONS workerCount address url
       amount =
     Promise_all
       (map (\<lambda>d. workerAccountBalance eth artifacts (ledger (txIndex d)) d)
          (for_loop TOTAL_TRANSACTIONS 0
             (deposit_workerData privateKeysToUse workerCount address url amount) []))"

definition deposit_run ::
  "ethers \<Rightarrow> (string \<Rightarrow> abi option) \<Rightarrow> (nat \<Rightarrow> nat \<Rightarrow> attempt_outcome) \<Rightarrow> string list \<Rightarrow> int \<Rightarrow> nat
     \<Rightarrow> string \<Rightarrow> string \<Rightarrow> int \<Rightarrow> int \<Rightarrow> chain \<Rightarrow> js_error + deposit_entry \<times> chain"
where
  "deposit_run eth artifacts ledger privateKeysToUse TOTAL_TRANSACTIONS workerCount address url
       amount initialContractEthBalance c =
     (case deposit_results eth artifacts ledger privateKeysToUse TOTAL_TRANSACTIONS workerCount
             address url amount of
        Inl e \<Rightarrow> Inl e
      | Inr rs \<Rightarrow> deposit_verify c initialContractEthBalance (map Obj rs))"

section \<open>Notions used in the statements and the proofs\<close>

subsection \<open>The scheduler\<close>

text \<open>
  The invariant of the scheduler: \<open>activeCount\<close> counts exactly the tasks in flight,
  never exceeds the limit, every called task is in flight or counted, the calls were
  made in the order of the list, the scheduler is saturated while tasks remain, and the
  promise is fulfilled exactly when all tasks are counted.
\<close>

definition sched_inv :: "nat \<Rightarrow> int \<Rightarrow> sched \<Rightarrow> bool" where
  "sched_inv n L s \<longleftrightarrow>
     activeCount s = int (length (running s) + length (settled s))
     \<and> activeCount s \<le> max 0 L
     \<and> taskIndex s \<le> n
     \<and> length (results s) + errors s + length (running s) = taskIndex s
     \<and> started s = [0 ..< taskIndex s]
     \<and> (0 < L \<longrightarrow> taskIndex s = n \<or> activeCount s = L)
     \<and> (promise s = Pending
          \<or> promise s = Fulfilled (results s) \<and> length (results s) + errors s = n)
     \<and> (0 < L \<and> running s = [] \<and> settled s = [] \<longrightarrow> promise s \<noteq> Pending)"

text \<open>
  What a sequence of handlers tells about the tasks: \<open>outcomes es\<close> lists, in order, the
  tasks whose \<^verbatim>\<open>.then\<close> handler (\<open>True\<close>) or \<^verbatim>\<open>.catch\<close> handler (\<open>False\<close>) ran. In a run
  no task occurs twice in it, and \<open>results\<close> and \<open>errors\<close> count its two kinds.
\<close>

fun outcome_of :: "event \<Rightarrow> (nat \<times> bool) option" where
  "outcome_of (Resolves i) = Some (i, True)"
| "outcome_of (Rejects i) = Some (i, False)"
| "outcome_of (Finally i) = None"

definition outcomes :: "event list \<Rightarrow> (nat \<times> bool) list" where
  "outcomes es = List.map_filter outcome_of es"

definition trace_inv :: "event list \<Rightarrow> sched \<Rightarrow> bool" where
  "trace_inv es s \<longleftrightarrow>
     distinct (map fst (outcomes es))
     \<and> distinct (running s)
     \<and> set (map fst (outcomes es)) \<inter> set (running s) = {}
     \<and> set (map fst (outcomes es)) \<union> set (running s) = {..<taskIndex s}
     \<and> length (results s) = length (filter snd (outcomes es))
     \<and> errors s = length (filter (\<lambda>x. \<not> snd x) (outcomes es))"

text \<open>
  The handler steps a run still has to take: two for a task not yet settled (called or
  not), one for a task whose \<^verbatim>\<open>.finally\<close> handler is queued.
\<close>

definition potential :: "nat \<Rightarrow> sched \<Rightarrow> nat" where
  "potential n s = 2 * (n - taskIndex s) + 2 * length (running s) + length (settled s)"

subsection \<open>The retry loops\<close>

text \<open>
  The state in which a worker leaves its loop, and what it is after the last attempt: a
  receipt decides the result, a thrown error is the result when it is not retried.
\<close>

definition counter_final :: "(nat \<Rightarrow> attempt_outcome) \<Rightarrow> passedData \<Rightarrow> worker_result retry_state"
where
  "counter_final ledger d = workerBenchmark_loop ledger d (workerBenchmark_start d)"

definition deposit_final ::
  "(nat \<Rightarrow> attempt_outcome) \<Rightarrow> deposit_passedData \<Rightarrow> deposit_result retry_state" where
  "deposit_final ledger d = workerAccountBalance_loop ledger d (workerAccountBalance_start d)"

definition counter_exit ::
  "(nat \<Rightarrow> attempt_outcome) \<Rightarrow> passedData \<Rightarrow> worker_result retry_state \<Rightarrow> bool" where
  "counter_exit ledger d f \<longleftrightarrow>
     (case ledger (attempt f) of
        Confirmed status h \<Rightarrow>
          result f = \<lparr>workerId = workerId d, txIndex = txIndex d, success = (status = Some 1),
                      error = (if status = Some 1 then None
                               else Some ''Transaction reverted with status 0''),
                      hash = Some h\<rparr>
      | Throws e \<Rightarrow>
          \<not> ((isNonceError e \<or> isNetworkError e) \<and> attempt f < MAX_ATTEMPTS_Counter)
          \<and> result f = \<lparr>workerId = workerId d, txIndex = txIndex d, success = False,
                         error = Some (message e), hash = None\<rparr>)"

definition deposit_exit ::
  "(nat \<Rightarrow> attempt_outcome) \<Rightarrow> deposit_passedData \<Rightarrow> deposit_result retry_state \<Rightarrow> bool" where
  "deposit_exit ledger d f \<longleftrightarrow>
     (case ledger (attempt f) of
        Confirmed status h \<Rightarrow>
          result f = \<lparr>workerId = workerId d, txIndex = txIndex d, success = (status = Some 1),
                      error = (if status = Some 1 then None
                               else Some ''Transaction reverted with status 0''),
                      hash = Some h,
                      amountDeposited = (if status = Some 1
                                         then BigInt_toString (depositAmountWei d)
                                         else ''0'')\<rparr>
      | Throws e \<Rightarrow>
          \<not> ((isNonceError e \<or> isNetworkError e) \<and> attempt f < MAX_ATTEMPTS_AccountBalance)
          \<and> result f = \<lparr>workerId = workerId d, txIndex = txIndex d, success = False,
                         error = Some (message e), hash = None,
                         amountDeposited = ''0''\<rparr>)"

text \<open>
  The retry condition in the words of the specification: a credential-sequencing conflict
  (code \<^verbatim>\<open>NONCE_EXPIRED\<close> or one of three phrases in the message) or a transient
  transport fault (one of four phrases). It is compared with \<open>isNonceError\<close> and
  \<open>isNetworkError\<close> in \<open>retryable_iff\<close>.
\<close>

definition retryable :: "js_error \<Rightarrow> bool" where
  "retryable e \<longleftrightarrow>
     code e = Some ''NONCE_EXPIRED''
     \<or> js_includes (toLowerCase (message e)) ''nonce too low''
     \<or> js_includes (toLowerCase (message e)) ''nonce has already been used''
     \<or> js_includes (toLowerCase (message e)) ''replacement transaction underpriced''
     \<or> js_includes (toLowerCase (message e)) ''timeout''
     \<or> js_includes (toLowerCase (message e)) ''could not detect network''
     \<or> js_includes (toLowerCase (message e)) ''failed to detect network''
     \<or> js_includes (toLowerCase (message e)) ''network error''"

text \<open>
  Steps 1 and 2 of a worker on their own: the contract instance, or the first error
  thrown on the way to it.
\<close>

definition worker_setup ::
  "ethers \<Rightarrow> (string \<Rightarrow> abi option) \<Rightarrow> 'a passedData_scheme \<Rightarrow> js_error + contract" where
  "worker_setup eth artifacts d =
     (case JsonRpcProvider eth (rpcUrl d) of
        Inl e \<Rightarrow> Inl e
      | Inr provider \<Rightarrow>
     (case Wallet eth (privateKey d) provider of
        Inl e \<Rightarrow> Inl e
      | Inr signer \<Rightarrow>
     (case getContractAbi artifacts (contractName d) of
        Inl e \<Rightarrow> Inl e
      | Inr contractAbi \<Rightarrow> Contract eth (contractAddress d) contractAbi signer)))"

subsection \<open>Lists of results\<close>

text \<open>
  The results the aggregation counts as successes, and the values it counts as failures
  (results with \<open>success\<close> false and unexpected values).
\<close>

fun succeeded :: "'a worker_result_scheme js_value list \<Rightarrow> 'a worker_result_scheme list"
where
  "succeeded [] = []"
| "succeeded (Obj res # rs) = (if success res then res # succeeded rs else succeeded rs)"
| "succeeded (Unexpected # rs) = succeeded rs"

fun failed :: "'a worker_result_scheme js_value list \<Rightarrow> 'a worker_result_scheme js_value list"
where
  "failed [] = []"
| "failed (Obj res # rs) = (if success res then failed rs else Obj res # failed rs)"
| "failed (Unexpected # rs) = Unexpected # failed rs"

subsection \<open>Example inputs\<close>

text \<open>
  A run of three tasks with limit 2 after task 1 was rejected; a run of two tasks in which
  one is fulfilled and one rejected; a run of two tasks that are both rejected, and its
  last state.
\<close>

definition sched_example :: sched where
  "sched_example = \<lparr>results = [], activeCount = 2, taskIndex = 2, errors = 1,
     promise = Pending, running = [0], settled = [1], started = [0, 1]\<rparr>"

definition events_example :: "event list" where
  "events_example = [Resolves 0, Finally 0, Rejects 1, Finally 1]"

definition events_rejected :: "event list" where
  "events_rejected = [Rejects 0, Finally 0, Rejects 1, Finally 1]"

definition sched_rejected :: sched where
  "sched_rejected = \<lparr>results = [], activeCount = 0, taskIndex = 2, errors = 2,
     promise = Fulfilled [], running = [], settled = [], started = [0, 1]\<rparr>"

text \<open>
  Ledgers: one that answers a nonce conflict, then an expired nonce, then a reverted
  receipt; one that always times out; per task, one where task 0 is confirmed and the
  others revert with a call exception, and one that always times out.
\<close>

definition ledger_example :: "nat \<Rightarrow> attempt_outcome" where
  "ledger_example k =
     (if k = 1 then Throws \<lparr>code = None, message = ''Nonce too low''\<rparr>
      else if k = 2 then Throws \<lparr>code = Some ''NONCE_EXPIRED'', message = ''''\<rparr>
      else Confirmed (Some 0) ''0xab'')"

definition ledger_down :: "nat \<Rightarrow> attempt_outcome" where
  "ledger_down k = Throws \<lparr>code = None, message = ''request timeout''\<rparr>"

definition ledgers_example :: "nat \<Rightarrow> nat \<Rightarrow> attempt_outcome" where
  "ledgers_example i k =
     (if i = 0 then Confirmed (Some 1) ''0xab''
      else Throws \<lparr>code = Some ''CALL_EXCEPTION'', message = ''transaction execution reverted''\<rparr>)"

definition ledgers_down :: "nat \<Rightarrow> nat \<Rightarrow> attempt_outcome" where
  "ledgers_down i k = Throws \<lparr>code = None, message = ''request timeout''\<rparr>"

text \<open>
  A private key (32 bytes), a contract address and the URL of the local node; task data
  with them; artifact directories (complete, and empty); the library at these arguments,
  where its three constructors return their objects; a chain, and received values.
\<close>

definition key_example :: string where
  "key_example = ''0x0000000000000000000000000000000000000000000000000000000000000001''"

definition address_example :: string where
  "address_example = ''0x5fbdb2315678afecb367f032d93f642f64180aa3''"

definition url_example :: string where
  "url_example = ''http://127.0.0.1:8545''"

definition data_example :: passedData where
  "data_example = \<lparr>workerId = 5, txIndex = 5, contractAddress = address_example,
     rpcUrl = url_example, privateKey = key_example, contractName = ''Counter''\<rparr>"

definition deposit_data_example :: deposit_passedData where
  "deposit_data_example = \<lparr>workerId = 5, txIndex = 5, contractAddress = address_example,
     rpcUrl = url_example, privateKey = key_example,
     contractName = ''AccountBalance'', depositAmountWei = 10000000000000000\<rparr>"

definition deposit_task_example :: deposit_passedData where
  "deposit_task_example =
     deposit_workerData [key_example] 2 address_example url_example 100 0"

definition abi_example :: abi where
  "abi_example = [''function increment()'', ''function count() view returns (uint256)'',
     ''function deposit() payable'']"

definition artifacts_example :: "string \<Rightarrow> abi option" where
  "artifacts_example name = Some abi_example"

definition ethers_example :: ethers where
  "ethers_example =
     \<lparr>JsonRpcProvider = (\<lambda>url. Inr (Provider url)),
      Wallet = (\<lambda>key provider. Inr (Signer key provider)),
      Contract = (\<lambda>address contractAbi signer. Inr (ContractAt address contractAbi signer))\<rparr>"

definition contract_example :: contract where
  "contract_example =
     ContractAt address_example abi_example (Signer key_example (Provider url_example))"

definition artifacts_missing :: "string \<Rightarrow> abi option" where
  "artifacts_missing name = None"

definition chain_example :: chain where
  "chain_example = \<lparr>count = 1, getBalance = 105\<rparr>"

definition deposit_values_example :: "deposit_result js_value list" where
  "deposit_values_example =
     [Obj \<lparr>workerId = 0, txIndex = 0, success = True, error = None, hash = Some ''0xab'',
           amountDeposited = ''100''\<rparr>,
      Obj \<lparr>workerId = 0, txIndex = 1, success = False, error = Some ''request timeout'',
           hash = None, amountDeposited = ''0''\<rparr>,
      Unexpected]"

definition counter_values_example :: "worker_result js_value list" where
  "counter_values_example =
     [Obj \<lparr>workerId = 0, txIndex = 0, success = True, error = None, hash = Some ''0xab''\<rparr>,
      Obj \<lparr>workerId = 0, txIndex = 1, success = False, error = Some ''request timeout'',
           hash = None\<rparr>]"

section \<open>Properties of the scheduler\<close>

subsection \<open>The launch loop\<close>

lemma launch_keeps:
  "results (launch L n s) = results s \<and> errors (launch L n s) = errors s
   \<and> promise (launch L n s) = promise s \<and> settled (launch L n s) = settled s"
proof (induction L n s rule: launch.induct)
  case (1 L n s)
  show ?case
  proof (cases "activeCount s < L \<and> taskIndex s < n")
    case True
    with "1" show ?thesis by (subst (1 2 3 4) launch.simps) simp
  next
    case False
    then show ?thesis by (simp add: launch.simps)
  qed
qed

lemma launch_admits:
  "taskIndex s \<le> taskIndex (launch L n s)
   \<and> running (launch L n s) = running s @ [taskIndex s ..< taskIndex (launch L n s)]
   \<and> started (launch L n s) = started s @ [taskIndex s ..< taskIndex (launch L n s)]
   \<and> activeCount (launch L n s) = activeCount s + int (taskIndex (launch L n s) - taskIndex s)"
proof (induction L n s rule: launch.induct)
  case (1 L n s)
  show ?case
  proof (cases "activeCount s < L \<and> taskIndex s < n")
    case True
    let ?s = "s\<lparr>taskIndex := taskIndex s + 1, activeCount := activeCount s + 1,
                running := running s @ [taskIndex s], started := started s @ [taskIndex s]\<rparr>"
    from True have eq: "launch L n s = launch L n ?s" by (subst launch.simps) simp
    from "1" [OF True] have ih:
      "Suc (taskIndex s) \<le> taskIndex (launch L n ?s)"
      "running (launch L n ?s) = running s @ [taskIndex s] @ [Suc (taskIndex s) ..< taskIndex (launch L n ?s)]"
      "started (launch L n ?s) = started s @ [taskIndex s] @ [Suc (taskIndex s) ..< taskIndex (launch L n ?s)]"
      "activeCount (launch L n ?s) = activeCount s + 1 + int (taskIndex (launch L n ?s) - Suc (taskIndex s))"
      by simp_all
    from ih(1) have up: "[taskIndex s ..< taskIndex (launch L n ?s)]
        = [taskIndex s] @ [Suc (taskIndex s) ..< taskIndex (launch L n ?s)]"
      by (simp add: upt_conv_Cons)
    show ?thesis unfolding eq using ih up by auto
  next
    case False
    then show ?thesis by (simp add: launch.simps)
  qed
qed

lemma launch_bounds:
  "taskIndex s \<le> n \<Longrightarrow> activeCount s \<le> max 0 L \<Longrightarrow>
   taskIndex (launch L n s) \<le> n \<and> activeCount (launch L n s) \<le> max 0 L
   \<and> \<not> (activeCount (launch L n s) < L \<and> taskIndex (launch L n s) < n)"
proof (induction L n s rule: launch.induct)
  case (1 L n s)
  show ?case
  proof (cases "activeCount s < L \<and> taskIndex s < n")
    case True
    let ?s = "s\<lparr>taskIndex := taskIndex s + 1, activeCount := activeCount s + 1,
                running := running s @ [taskIndex s], started := started s @ [taskIndex s]\<rparr>"
    from True have eq: "launch L n s = launch L n ?s" by (subst launch.simps) simp
    from True have "taskIndex ?s \<le> n" "activeCount ?s \<le> max 0 L" by (simp_all add: max_def)
    from "1.IH" [OF True this] show ?thesis unfolding eq .
  next
    case False
    with "1.prems" show ?thesis by (simp add: launch.simps)
  qed
qed

lemma launch_progress:
  "activeCount s < L \<Longrightarrow> taskIndex s < n \<Longrightarrow> taskIndex s < taskIndex (launch L n s)"
proof -
  assume a: "activeCount s < L" "taskIndex s < n"
  let ?s = "s\<lparr>taskIndex := taskIndex s + 1, activeCount := activeCount s + 1,
              running := running s @ [taskIndex s], started := started s @ [taskIndex s]\<rparr>"
  from a have "launch L n s = launch L n ?s" by (subst launch.simps) simp
  moreover have "taskIndex ?s \<le> taskIndex (launch L n ?s)" using launch_admits by blast
  ultimately show ?thesis by simp
qed

subsection \<open>The invariant\<close>

lemma resolve_fields:
  "results (resolve s) = results s" "errors (resolve s) = errors s"
  "activeCount (resolve s) = activeCount s" "taskIndex (resolve s) = taskIndex s"
  "running (resolve s) = running s" "settled (resolve s) = settled s"
  "started (resolve s) = started s"
  "promise (resolve s) = (if promise s = Pending then Fulfilled (results s) else promise s)"
  by (simp_all add: resolve_def split: promise.splits)

lemma sched_inv_runNext:
  assumes a: "activeCount s = int (length (running s) + length (settled s))"
    and b: "activeCount s \<le> max 0 L"
    and c: "taskIndex s \<le> n"
    and d: "length (results s) + errors s + length (running s) = taskIndex s"
    and e: "started s = [0 ..< taskIndex s]"
    and f: "promise s = Pending
          \<or> promise s = Fulfilled (results s) \<and> length (results s) + errors s = n"
    and g: "0 < L \<Longrightarrow> taskIndex s = n \<or> activeCount s < L"
  shows "sched_inv n L (runNext L n s)"
proof (cases "length (results s) + errors s = n")
  case True
  then have r: "runNext L n s = resolve s" by (simp add: runNext_def)
  from True c d have "taskIndex s = n" by simp
  with a b c d e f True show ?thesis
    unfolding r sched_inv_def resolve_fields by auto
next
  case False
  then have r: "runNext L n s = launch L n s" by (simp add: runNext_def)
  let ?t = "launch L n s"
  note k = launch_keeps [of L n s]
  note ad = launch_admits [of s L n]
  note bd = launch_bounds [OF c b]
  from f False have p: "promise s = Pending" by auto
  have 1: "activeCount ?t = int (length (running ?t) + length (settled ?t))"
    using a ad k by simp
  have 4: "length (results ?t) + errors ?t + length (running ?t) = taskIndex ?t"
    using d ad k by simp
  have 5: "started ?t = [0 ..< taskIndex ?t]"
  proof -
    have "[0 ..< taskIndex ?t] = [0 ..< taskIndex s] @ [taskIndex s ..< taskIndex ?t]"
    proof -
      from ad obtain k where "taskIndex ?t = taskIndex s + k" by (auto simp: le_iff_add)
      then show ?thesis using upt_add_eq_append [of 0 "taskIndex s" k] by simp
    qed
    with e ad show ?thesis by simp
  qed
  have 6: "0 < L \<longrightarrow> taskIndex ?t = n \<or> activeCount ?t = L"
    using bd by (auto simp: max_def split: if_splits)
  have 8: "0 < L \<and> running ?t = [] \<and> settled ?t = [] \<longrightarrow> promise ?t \<noteq> Pending"
  proof (intro impI, elim conjE)
    assume L: "0 < L" and rn: "running ?t = []" and st: "settled ?t = []"
    from 1 rn st have "activeCount ?t = 0" by simp
    with 6 L have "taskIndex ?t = n" by auto
    with 4 rn k have "length (results s) + errors s = n" by simp
    with False show "promise ?t \<noteq> Pending" by simp
  qed
  show ?thesis unfolding r sched_inv_def using 1 4 5 6 8 bd p k by simp
qed

lemma sched_inv_init: "sched_inv n L (runTasksWithConcurrency n L)"
  unfolding runTasksWithConcurrency_def
  by (rule sched_inv_runNext) (auto simp: init_sched_def)

lemma sched_inv_handler:
  assumes inv: "sched_inv n L s" and h: "handler L n s e = Some s'"
  shows "sched_inv n L s'"
proof (cases e)
  case (Resolves i)
  with h have i: "i \<in> set (running s)"
    and s': "s' = s\<lparr>results := results s @ [True], running := remove1 i (running s),
                   settled := settled s @ [i]\<rparr>"
    by (auto split: if_splits)
  from i have len: "length (running s) = Suc (length (remove1 i (running s)))"
    using length_pos_if_in_set [OF i] by (simp add: length_remove1)
  from inv i have pend: "promise s = Pending"
    unfolding sched_inv_def by (cases "running s") auto
  from inv len pend show ?thesis unfolding s' sched_inv_def by auto
next
  case (Rejects i)
  with h have i: "i \<in> set (running s)"
    and s': "s' = s\<lparr>errors := errors s + 1, running := remove1 i (running s),
                   settled := settled s @ [i]\<rparr>"
    by (auto split: if_splits)
  from i have len: "length (running s) = Suc (length (remove1 i (running s)))"
    using length_pos_if_in_set [OF i] by (simp add: length_remove1)
  from inv i have pend: "promise s = Pending"
    unfolding sched_inv_def by (cases "running s") auto
  from inv len pend show ?thesis unfolding s' sched_inv_def by auto
next
  case (Finally i)
  let ?u = "s\<lparr>activeCount := activeCount s - 1, settled := remove1 i (settled s)\<rparr>"
  from Finally h have i: "i \<in> set (settled s)" and s': "s' = runNext L n ?u"
    by (auto split: if_splits)
  from i have len: "length (settled s) = Suc (length (remove1 i (settled s)))"
    using length_pos_if_in_set [OF i] by (simp add: length_remove1)
  show ?thesis unfolding s'
  proof (rule sched_inv_runNext)
    show "activeCount ?u = int (length (running ?u) + length (settled ?u))"
      using inv len unfolding sched_inv_def by simp
    show "activeCount ?u \<le> max 0 L" using inv unfolding sched_inv_def by simp
    show "taskIndex ?u \<le> n" using inv unfolding sched_inv_def by simp
    show "length (results ?u) + errors ?u + length (running ?u) = taskIndex ?u"
      using inv unfolding sched_inv_def by simp
    show "started ?u = [0 ..< taskIndex ?u]" using inv unfolding sched_inv_def by simp
    show "promise ?u = Pending
          \<or> promise ?u = Fulfilled (results ?u) \<and> length (results ?u) + errors ?u = n"
      using inv unfolding sched_inv_def by simp
    show "taskIndex ?u = n \<or> activeCount ?u < L" if "0 < L"
      using inv that len unfolding sched_inv_def by auto
  qed
qed

lemma sched_inv_handlers:
  "sched_inv n L s \<Longrightarrow> handlers L n s es = Some s' \<Longrightarrow> sched_inv n L s'"
  by (induction es arbitrary: s) (auto split: option.splits dest: sched_inv_handler)

lemma sched_inv_run: "run_sched n L es = Some s \<Longrightarrow> sched_inv n L s"
  unfolding run_sched_def using sched_inv_init sched_inv_handlers by blast

subsection \<open>Bound, admission and missing validation\<close>

lemma finally_admits:
  assumes inv: "sched_inv n L s" and h: "handler L n s (Finally i) = Some s'"
    and rem: "taskIndex s < n"
  shows "taskIndex s < taskIndex s'
         \<and> running s' = running s @ [taskIndex s ..< taskIndex s']
         \<and> started s' = started s @ [taskIndex s ..< taskIndex s']"
proof -
  let ?u = "s\<lparr>activeCount := activeCount s - 1, settled := remove1 i (settled s)\<rparr>"
  from h have i: "i \<in> set (settled s)" and s': "s' = runNext L n ?u"
    by (auto split: if_splits)
  from i obtain m where pos: "length (settled s) = Suc m"
    by (cases "settled s") auto
  from inv have ac: "activeCount s = int (length (running s) + length (settled s))"
    and le: "activeCount s \<le> max 0 L"
    and cnt: "length (results s) + errors s + length (running s) = taskIndex s"
    unfolding sched_inv_def by simp_all
  from ac pos le have lt: "activeCount ?u < L" by (simp add: max_def split: if_splits)
  from cnt rem have "length (results ?u) + errors ?u \<noteq> n" by simp
  then have r: "s' = launch L n ?u" unfolding s' by (simp add: runNext_def)
  from launch_progress [of ?u L n] lt rem have "taskIndex s < taskIndex s'"
    unfolding r by simp
  moreover from launch_admits [of ?u L n]
  have "running s' = running s @ [taskIndex s ..< taskIndex s']"
    "started s' = started s @ [taskIndex s ..< taskIndex s']"
    unfolding r by simp_all
  ultimately show ?thesis by simp
qed

text \<open>
  C1. In every state of every run, the tasks in flight (called, \<^verbatim>\<open>.finally\<close> handler not
  yet run) are exactly \<open>activeCount\<close> many and at most \<open>limit\<close> (none when the limit is
  not positive); the tasks are called in the order of the list; and whenever the
  \<^verbatim>\<open>.finally\<close> handler of a task runs while tasks remain, the next task of the list is
  called in that same step.
\<close>

theorem concurrency_bound:
  assumes "run_sched totalTasks limit es = Some s"
  shows "activeCount s = int (length (running s) + length (settled s))
         \<and> int (length (running s) + length (settled s)) \<le> max 0 limit
         \<and> started s = [0 ..< taskIndex s]
         \<and> (\<forall>i s'. handler limit totalTasks s (Finally i) = Some s' \<and> taskIndex s < totalTasks
               \<longrightarrow> taskIndex s < taskIndex s'
                   \<and> running s' = running s @ [taskIndex s ..< taskIndex s']
                   \<and> started s' = [0 ..< taskIndex s'])"
proof -
  from assms have inv: "sched_inv totalTasks limit s" by (rule sched_inv_run)
  have adm: "taskIndex s < taskIndex s'
             \<and> running s' = running s @ [taskIndex s ..< taskIndex s']
             \<and> started s' = [0 ..< taskIndex s']"
    if h: "handler limit totalTasks s (Finally i) = Some s'" and rem: "taskIndex s < totalTasks"
    for i s'
  proof -
    from sched_inv_handler [OF inv h] have "started s' = [0 ..< taskIndex s']"
      unfolding sched_inv_def by simp
    with finally_admits [OF inv h rem] show ?thesis by simp
  qed
  from inv have "activeCount s = int (length (running s) + length (settled s))"
    "int (length (running s) + length (settled s)) \<le> max 0 limit"
    "started s = [0 ..< taskIndex s]"
    unfolding sched_inv_def by simp_all
  with adm show ?thesis by blast
qed

lemmas sched_eval = run_sched_def runTasksWithConcurrency_def runNext_def resolve_def
  init_sched_def launch.simps

lemma sched_example_run: "run_sched 3 2 [Rejects 1] = Some sched_example"
  by (simp add: sched_eval sched_example_def)

lemma sched_example_finally: "handler 2 3 sched_example (Finally 1)
   = Some \<lparr>results = [], activeCount = 2, taskIndex = 3, errors = 1,
     promise = Pending, running = [0, 2], settled = [], started = [0, 1, 2]\<rparr>"
  by (simp add: sched_eval sched_example_def)

theorem concurrency_bound_witness:
  "run_sched 3 2 [Rejects 1] = Some sched_example
   \<and> activeCount sched_example = int (length (running sched_example) + length (settled sched_example))
   \<and> int (length (running sched_example) + length (settled sched_example)) \<le> max 0 2
   \<and> started sched_example = [0 ..< taskIndex sched_example]
   \<and> handler 2 3 sched_example (Finally 1)
       = Some \<lparr>results = [], activeCount = 2, taskIndex = 3, errors = 1,
           promise = Pending, running = [0, 2], settled = [], started = [0, 1, 2]\<rparr>
   \<and> taskIndex sched_example < 3"
  using concurrency_bound [OF sched_example_run] sched_example_run sched_example_finally by (simp add: sched_example_def)

text \<open>
  C7 as stated fails: with one task and limit 0 the promise is neither rejected nor
  resolved, and no handler is left that could ever change it.
\<close>

theorem no_validation_counterexample:
  "promise (runTasksWithConcurrency 1 0) = Pending
   \<and> started (runTasksWithConcurrency 1 0) = []
   \<and> running (runTasksWithConcurrency 1 0) = []
   \<and> settled (runTasksWithConcurrency 1 0) = []"
  by (simp add: sched_eval)

lemma handler_None_idle:
  "running s = [] \<Longrightarrow> settled s = [] \<Longrightarrow> handler L n s e = None"
  by (cases e) simp_all

lemma launch_nonpositive: "L \<le> 0 \<Longrightarrow> activeCount s = 0 \<Longrightarrow> launch L n s = s"
  by (subst launch.simps) simp

lemma transactionTasks_negative: "T \<le> 0 \<Longrightarrow> transactionTasks T k = []"
  unfolding transactionTasks_def by (subst for_loop.simps) simp

text \<open>
  C7, amended. With a limit \<open>\<le> 0\<close> and at least one task, no task is ever called and no
  handler ever runs, but the run is not rejected: the promise stays pending for ever. A
  negative \<open>TOTAL_TRANSACTIONS\<close> prepares no task, and the run resolves at once with
  the empty result.
\<close>

theorem nonpositive_limit_never_starts:
  "(limit \<le> 0 \<and> 0 < totalTasks \<and> run_sched totalTasks limit es = Some s
      \<longrightarrow> es = [] \<and> promise s = Pending \<and> started s = [] \<and> running s = [] \<and> settled s = [])
   \<and> (TOTAL_TRANSACTIONS < 0
      \<longrightarrow> transactionTasks TOTAL_TRANSACTIONS signers = []
         \<and> promise (runTasksWithConcurrency (length (transactionTasks TOTAL_TRANSACTIONS signers)) limit)
             = Fulfilled []
         \<and> started (runTasksWithConcurrency (length (transactionTasks TOTAL_TRANSACTIONS signers)) limit)
             = [])"
proof (intro conjI impI)
  assume a: "limit \<le> 0 \<and> 0 < totalTasks \<and> run_sched totalTasks limit es = Some s"
  let ?s0 = "runTasksWithConcurrency totalTasks limit"
  from a have s0: "?s0 = init_sched"
    unfolding runTasksWithConcurrency_def runNext_def
    by (simp add: launch_nonpositive init_sched_def)
  have es: "es = []"
  proof (cases es)
    case (Cons e es')
    have "handler limit totalTasks ?s0 e = None"
      unfolding s0 by (rule handler_None_idle) (simp_all add: init_sched_def)
    with a Cons show ?thesis by (simp add: run_sched_def)
  qed simp
  with a s0 have "s = init_sched" by (simp add: run_sched_def)
  then show "es = []" "promise s = Pending" "started s = []" "running s = []" "settled s = []"
    using es by (simp_all add: init_sched_def)
next
  assume "TOTAL_TRANSACTIONS < 0"
  then have t: "transactionTasks TOTAL_TRANSACTIONS signers = []"
    by (simp add: transactionTasks_negative)
  show "transactionTasks TOTAL_TRANSACTIONS signers = []" by (rule t)
  show "promise (runTasksWithConcurrency (length (transactionTasks TOTAL_TRANSACTIONS signers)) limit)
             = Fulfilled []"
    unfolding t by (simp add: sched_eval)
  show "started (runTasksWithConcurrency (length (transactionTasks TOTAL_TRANSACTIONS signers)) limit)
             = []"
    unfolding t by (simp add: sched_eval)
qed

theorem nonpositive_limit_witness:
  "(0::int) \<le> 0 \<and> (0::nat) < 1 \<and> run_sched 1 0 [] = Some init_sched
   \<and> promise init_sched = Pending \<and> started init_sched = []
   \<and> running init_sched = [] \<and> settled init_sched = []
   \<and> (-1::int) < 0
   \<and> transactionTasks (-1) 20 = []
   \<and> promise (runTasksWithConcurrency (length (transactionTasks (-1) 20)) 0) = Fulfilled []
   \<and> started (runTasksWithConcurrency (length (transactionTasks (-1) 20)) 0) = []"
proof -
  have h: "run_sched 1 0 [] = Some init_sched"
    by (simp add: sched_eval)
  from nonpositive_limit_never_starts [of 0 1 "[]" init_sched "-1" 20] h
  show ?thesis by (simp add: sched_eval)
qed

text \<open>
  C10. With an empty task list the scheduler resolves in its first call of \<open>runNext\<close>,
  whatever the limit: the promise is fulfilled with the empty \<open>results\<close> array, no
  error is counted and no task is called.
\<close>

theorem empty_task_list_resolves:
  "promise (runTasksWithConcurrency 0 limit) = Fulfilled []
   \<and> results (runTasksWithConcurrency 0 limit) = []
   \<and> errors (runTasksWithConcurrency 0 limit) = 0
   \<and> started (runTasksWithConcurrency 0 limit) = []"
  by (simp add: runTasksWithConcurrency_def runNext_def resolve_def init_sched_def)

section \<open>Properties of the retry engine\<close>

subsection \<open>The two loops, attempt by attempt\<close>

lemma toLowerCase_Nil: "toLowerCase [] = []"
  by (simp add: toLowerCase_def)

lemma errorMessage_eq: "errorMessage e = toLowerCase (message e)"
  by (simp add: errorMessage_def toLowerCase_Nil)

lemma js_includes_sublist: "js_includes s sub \<longleftrightarrow> sublist sub s"
  by (induction s) (auto simp: sublist_Cons_right)

lemma counter_loop_stop:
  "\<not> attempt st < MAX_ATTEMPTS_Counter \<Longrightarrow> workerBenchmark_loop ledger d st = st"
  by (subst workerBenchmark_loop.simps) simp

lemma counter_loop_confirmed:
  "attempt st < MAX_ATTEMPTS_Counter \<Longrightarrow> ledger (attempt st + 1) = Confirmed status h \<Longrightarrow>
   workerBenchmark_loop ledger d st =
     st\<lparr>attempt := attempt st + 1,
        result := \<lparr>workerId = workerId d, txIndex = txIndex d, success = (status = Some 1),
                   error = (if status = Some 1 then None
                            else Some ''Transaction reverted with status 0''),
                   hash = Some h\<rparr>\<rparr>"
  by (subst workerBenchmark_loop.simps) simp

lemma counter_loop_retry:
  "attempt st < MAX_ATTEMPTS_Counter \<Longrightarrow> ledger (attempt st + 1) = Throws e \<Longrightarrow>
   isNonceError e \<or> isNetworkError e \<Longrightarrow> attempt st + 1 < MAX_ATTEMPTS_Counter \<Longrightarrow>
   workerBenchmark_loop ledger d st =
     workerBenchmark_loop ledger d
       (st\<lparr>attempt := attempt st + 1,
           result := \<lparr>workerId = workerId d, txIndex = txIndex d, success = False,
                      error = Some (message e), hash = None\<rparr>,
           delays := delays st @ [RETRY_DELAY_MS_Counter * 2 ^ (attempt st + 1 - 1)]\<rparr>)"
  by (subst workerBenchmark_loop.simps) simp

lemma counter_loop_fail:
  "attempt st < MAX_ATTEMPTS_Counter \<Longrightarrow> ledger (attempt st + 1) = Throws e \<Longrightarrow>
   \<not> ((isNonceError e \<or> isNetworkError e) \<and> attempt st + 1 < MAX_ATTEMPTS_Counter) \<Longrightarrow>
   workerBenchmark_loop ledger d st =
     st\<lparr>attempt := attempt st + 1,
        result := \<lparr>workerId = workerId d, txIndex = txIndex d, success = False,
                   error = Some (message e), hash = None\<rparr>\<rparr>"
  by (subst workerBenchmark_loop.simps) auto

lemma counter_loop_char:
  "attempt st < MAX_ATTEMPTS_Counter \<Longrightarrow>
   attempt st < attempt (workerBenchmark_loop ledger d st)
   \<and> attempt (workerBenchmark_loop ledger d st) \<le> MAX_ATTEMPTS_Counter
   \<and> (\<forall>j. attempt st < j \<and> j < attempt (workerBenchmark_loop ledger d st)
          \<longrightarrow> (\<exists>e. ledger j = Throws e \<and> (isNonceError e \<or> isNetworkError e)))
   \<and> counter_exit ledger d (workerBenchmark_loop ledger d st)
   \<and> delays (workerBenchmark_loop ledger d st)
       = delays st @ map (\<lambda>j. RETRY_DELAY_MS_Counter * 2 ^ (j - 1))
                         [attempt st + 1 ..< attempt (workerBenchmark_loop ledger d st)]"
proof (induction ledger d st rule: workerBenchmark_loop.induct)
  case (1 ledger d st)
  note lt = \<open>attempt st < MAX_ATTEMPTS_Counter\<close>
  show ?case
  proof (cases "ledger (attempt st + 1)")
    case (Confirmed status h)
    show ?thesis
      unfolding counter_loop_confirmed [where ledger = ledger and st = st, OF lt Confirmed]
      using lt Confirmed by (auto simp: counter_exit_def)
  next
    case (Throws e)
    show ?thesis
    proof (cases "(isNonceError e \<or> isNetworkError e) \<and> attempt st + 1 < MAX_ATTEMPTS_Counter")
      case False
      show ?thesis
        unfolding counter_loop_fail [where ledger = ledger and st = st, OF lt Throws False]
        using lt Throws False by (auto simp: counter_exit_def)
    next
      case True
      let ?st = "st\<lparr>attempt := attempt st + 1,
           result := \<lparr>workerId = workerId d, txIndex = txIndex d, success = False,
                      error = Some (message e), hash = None\<rparr>,
           delays := delays st @ [RETRY_DELAY_MS_Counter * 2 ^ (attempt st + 1 - 1)]\<rparr>"
      let ?f = "workerBenchmark_loop ledger d ?st"
      from True have re: "isNonceError e \<or> isNetworkError e"
        and lt': "attempt st + 1 < MAX_ATTEMPTS_Counter" by simp_all
      have eq: "workerBenchmark_loop ledger d st = ?f"
        by (rule counter_loop_retry [where ledger = ledger and st = st, OF lt Throws re lt'])
      from lt' have "attempt ?st < MAX_ATTEMPTS_Counter" by simp
      from "1.IH" [OF lt Throws True this]
      have a: "attempt st + 1 < attempt ?f"
        and b: "attempt ?f \<le> MAX_ATTEMPTS_Counter"
        and c: "\<forall>j. attempt st + 1 < j \<and> j < attempt ?f
                 \<longrightarrow> (\<exists>e. ledger j = Throws e \<and> (isNonceError e \<or> isNetworkError e))"
        and x: "counter_exit ledger d ?f"
        and dl: "delays ?f = (delays st @ [RETRY_DELAY_MS_Counter * 2 ^ (attempt st + 1 - 1)])
                   @ map (\<lambda>j. RETRY_DELAY_MS_Counter * 2 ^ (j - 1)) [attempt st + 1 + 1 ..< attempt ?f]"
        by simp_all
      have c': "\<exists>e. ledger j = Throws e \<and> (isNonceError e \<or> isNetworkError e)"
        if "attempt st < j" "j < attempt ?f" for j
      proof (cases "j = attempt st + 1")
        case True
        with Throws re show ?thesis by simp
      next
        case False
        with that c show ?thesis by simp
      qed
      from a have up: "[attempt st + 1 ..< attempt ?f]
           = (attempt st + 1) # [attempt st + 1 + 1 ..< attempt ?f]"
        by (simp add: upt_conv_Cons)
      show ?thesis unfolding eq using a b c' x dl up by simp
    qed
  qed
qed

lemma deposit_loop_stop:
  "\<not> attempt st < MAX_ATTEMPTS_AccountBalance \<Longrightarrow> workerAccountBalance_loop ledger d st = st"
  by (subst workerAccountBalance_loop.simps) simp

lemma deposit_loop_confirmed:
  "attempt st < MAX_ATTEMPTS_AccountBalance \<Longrightarrow> ledger (attempt st + 1) = Confirmed status h \<Longrightarrow>
   workerAccountBalance_loop ledger d st =
     st\<lparr>attempt := attempt st + 1,
        result := \<lparr>workerId = workerId d, txIndex = txIndex d, success = (status = Some 1),
                   error = (if status = Some 1 then None
                            else Some ''Transaction reverted with status 0''),
                   hash = Some h,
                   amountDeposited = (if status = Some 1
                                      then BigInt_toString (depositAmountWei d) else ''0'')\<rparr>\<rparr>"
  by (subst workerAccountBalance_loop.simps) simp

lemma deposit_loop_retry:
  "attempt st < MAX_ATTEMPTS_AccountBalance \<Longrightarrow> ledger (attempt st + 1) = Throws e \<Longrightarrow>
   isNonceError e \<or> isNetworkError e \<Longrightarrow> attempt st + 1 < MAX_ATTEMPTS_AccountBalance \<Longrightarrow>
   workerAccountBalance_loop ledger d st =
     workerAccountBalance_loop ledger d
       (st\<lparr>attempt := attempt st + 1,
           result := \<lparr>workerId = workerId d, txIndex = txIndex d, success = False,
                      error = Some (message e), hash = None,
                      amountDeposited = ''0''\<rparr>,
           delays := delays st @ [RETRY_DELAY_MS_AccountBalance * 2 ^ (attempt st + 1 - 1)]\<rparr>)"
  by (subst workerAccountBalance_loop.simps) simp

lemma deposit_loop_fail:
  "attempt st < MAX_ATTEMPTS_AccountBalance \<Longrightarrow> ledger (attempt st + 1) = Throws e \<Longrightarrow>
   \<not> ((isNonceError e \<or> isNetworkError e) \<and> attempt st + 1 < MAX_ATTEMPTS_AccountBalance) \<Longrightarrow>
   workerAccountBalance_loop ledger d st =
     st\<lparr>attempt := attempt st + 1,
        result := \<lparr>workerId = workerId d, txIndex = txIndex d, success = False,
                   error = Some (message e), hash = None,
                      amountDeposited = ''0''\<rparr>\<rparr>"
  by (subst workerAccountBalance_loop.simps) auto

lemma deposit_loop_char:
  "attempt st < MAX_ATTEMPTS_AccountBalance \<Longrightarrow>
   attempt st < attempt (workerAccountBalance_loop ledger d st)
   \<and> attempt (workerAccountBalance_loop ledger d st) \<le> MAX_ATTEMPTS_AccountBalance
   \<and> (\<forall>j. attempt st < j \<and> j < attempt (workerAccountBalance_loop ledger d st)
          \<longrightarrow> (\<exists>e. ledger j = Throws e \<and> (isNonceError e \<or> isNetworkError e)))
   \<and> deposit_exit ledger d (workerAccountBalance_loop ledger d st)
   \<and> delays (workerAccountBalance_loop ledger d st)
       = delays st @ map (\<lambda>j. RETRY_DELAY_MS_AccountBalance * 2 ^ (j - 1))
                         [attempt st + 1 ..< attempt (workerAccountBalance_loop ledger d st)]"
proof (induction ledger d st rule: workerAccountBalance_loop.induct)
  case (1 ledger d st)
  note lt = \<open>attempt st < MAX_ATTEMPTS_AccountBalance\<close>
  show ?case
  proof (cases "ledger (attempt st + 1)")
    case (Confirmed status h)
    show ?thesis
      unfolding deposit_loop_confirmed [where ledger = ledger and st = st, OF lt Confirmed]
      using lt Confirmed by (auto simp: deposit_exit_def)
  next
    case (Throws e)
    show ?thesis
    proof (cases "(isNonceError e \<or> isNetworkError e) \<and> attempt st + 1 < MAX_ATTEMPTS_AccountBalance")
      case False
      show ?thesis
        unfolding deposit_loop_fail [where ledger = ledger and st = st, OF lt Throws False]
        using lt Throws False by (auto simp: deposit_exit_def)
    next
      case True
      let ?st = "st\<lparr>attempt := attempt st + 1,
           result := \<lparr>workerId = workerId d, txIndex = txIndex d, success = False,
                      error = Some (message e), hash = None,
                      amountDeposited = ''0''\<rparr>,
           delays := delays st @ [RETRY_DELAY_MS_AccountBalance * 2 ^ (attempt st + 1 - 1)]\<rparr>"
      let ?f = "workerAccountBalance_loop ledger d ?st"
      from True have re: "isNonceError e \<or> isNetworkError e"
        and lt': "attempt st + 1 < MAX_ATTEMPTS_AccountBalance" by simp_all
      have eq: "workerAccountBalance_loop ledger d st = ?f"
        by (rule deposit_loop_retry [where ledger = ledger and st = st, OF lt Throws re lt'])
      from lt' have "attempt ?st < MAX_ATTEMPTS_AccountBalance" by simp
      from "1.IH" [OF lt Throws True this]
      have a: "attempt st + 1 < attempt ?f"
        and b: "attempt ?f \<le> MAX_ATTEMPTS_AccountBalance"
        and c: "\<forall>j. attempt st + 1 < j \<and> j < attempt ?f
                 \<longrightarrow> (\<exists>e. ledger j = Throws e \<and> (isNonceError e \<or> isNetworkError e))"
        and x: "deposit_exit ledger d ?f"
        and dl: "delays ?f = (delays st @ [RETRY_DELAY_MS_AccountBalance * 2 ^ (attempt st + 1 - 1)])
                   @ map (\<lambda>j. RETRY_DELAY_MS_AccountBalance * 2 ^ (j - 1)) [attempt st + 1 + 1 ..< attempt ?f]"
        by simp_all
      have c': "\<exists>e. ledger j = Throws e \<and> (isNonceError e \<or> isNetworkError e)"
        if "attempt st < j" "j < attempt ?f" for j
      proof (cases "j = attempt st + 1")
        case True
        with Throws re show ?thesis by simp
      next
        case False
        with that c show ?thesis by simp
      qed
      from a have up: "[attempt st + 1 ..< attempt ?f]
           = (attempt st + 1) # [attempt st + 1 + 1 ..< attempt ?f]"
        by (simp add: upt_conv_Cons)
      show ?thesis unfolding eq using a b c' x dl up by simp
    qed
  qed
qed

subsection \<open>Classification, bound and backoff\<close>

lemma retryable_iff: "retryable e \<longleftrightarrow> isNonceError e \<or> isNetworkError e"
  unfolding retryable_def isNonceError_def isNetworkError_def errorMessage_eq by blast

lemma counter_final_char:
  "0 < attempt (counter_final ledger d)
   \<and> attempt (counter_final ledger d) \<le> MAX_ATTEMPTS_Counter
   \<and> (\<forall>j. 0 < j \<and> j < attempt (counter_final ledger d)
          \<longrightarrow> (\<exists>e. ledger j = Throws e \<and> (isNonceError e \<or> isNetworkError e)))
   \<and> counter_exit ledger d (counter_final ledger d)
   \<and> delays (counter_final ledger d)
       = map (\<lambda>j. RETRY_DELAY_MS_Counter * 2 ^ (j - 1)) [1 ..< attempt (counter_final ledger d)]"
proof -
  have "attempt (workerBenchmark_start d) < MAX_ATTEMPTS_Counter"
    by (simp add: workerBenchmark_start_def MAX_ATTEMPTS_Counter_def)
  from counter_loop_char [OF this, of ledger d] show ?thesis
    unfolding counter_final_def by (simp add: workerBenchmark_start_def)
qed

lemma deposit_final_char:
  "0 < attempt (deposit_final ledger d)
   \<and> attempt (deposit_final ledger d) \<le> MAX_ATTEMPTS_AccountBalance
   \<and> (\<forall>j. 0 < j \<and> j < attempt (deposit_final ledger d)
          \<longrightarrow> (\<exists>e. ledger j = Throws e \<and> (isNonceError e \<or> isNetworkError e)))
   \<and> deposit_exit ledger d (deposit_final ledger d)
   \<and> delays (deposit_final ledger d)
       = map (\<lambda>j. RETRY_DELAY_MS_AccountBalance * 2 ^ (j - 1))
             [1 ..< attempt (deposit_final ledger d)]"
proof -
  have "attempt (workerAccountBalance_start d) < MAX_ATTEMPTS_AccountBalance"
    by (simp add: workerAccountBalance_start_def MAX_ATTEMPTS_AccountBalance_def)
  from deposit_loop_char [OF this, of ledger d] show ?thesis
    unfolding deposit_final_def by (simp add: workerAccountBalance_start_def)
qed

lemma counter_classification:
  assumes j: "1 \<le> j" "j \<le> attempt (counter_final ledger d)"
  shows "case ledger j of
           Confirmed status h \<Rightarrow>
             attempt (counter_final ledger d) = j
             \<and> (success (result (counter_final ledger d)) \<longleftrightarrow> status = Some 1)
         | Throws e \<Rightarrow>
             (j < attempt (counter_final ledger d) \<longleftrightarrow> retryable e \<and> j < MAX_ATTEMPTS_Counter)
             \<and> (j = attempt (counter_final ledger d)
                  \<longrightarrow> \<not> success (result (counter_final ledger d))
                      \<and> error (result (counter_final ledger d)) = Some (message e))"
proof -
  let ?f = "counter_final ledger d"
  note ch = counter_final_char [of ledger d]
  show ?thesis
  proof (cases "j < attempt ?f")
    case True
    with j ch obtain e where "ledger j = Throws e" "isNonceError e \<or> isNetworkError e"
      by (metis less_eq_Suc_le One_nat_def)
    with True ch show ?thesis by (simp add: retryable_iff)
  next
    case False
    with j have eq: "j = attempt ?f" by simp
    from ch have "counter_exit ledger d ?f" by simp
    then show ?thesis unfolding eq counter_exit_def
      by (auto simp: retryable_iff split: attempt_outcome.splits)
  qed
qed

lemma deposit_classification:
  assumes j: "1 \<le> j" "j \<le> attempt (deposit_final ledger d)"
  shows "case ledger j of
           Confirmed status h \<Rightarrow>
             attempt (deposit_final ledger d) = j
             \<and> (success (result (deposit_final ledger d)) \<longleftrightarrow> status = Some 1)
         | Throws e \<Rightarrow>
             (j < attempt (deposit_final ledger d)
                \<longleftrightarrow> retryable e \<and> j < MAX_ATTEMPTS_AccountBalance)
             \<and> (j = attempt (deposit_final ledger d)
                  \<longrightarrow> \<not> success (result (deposit_final ledger d))
                      \<and> error (result (deposit_final ledger d)) = Some (message e))"
proof -
  let ?f = "deposit_final ledger d"
  note ch = deposit_final_char [of ledger d]
  show ?thesis
  proof (cases "j < attempt ?f")
    case True
    with j ch obtain e where "ledger j = Throws e" "isNonceError e \<or> isNetworkError e"
      by (metis less_eq_Suc_le One_nat_def)
    with True ch show ?thesis by (simp add: retryable_iff)
  next
    case False
    with j have eq: "j = attempt ?f" by simp
    from ch have "deposit_exit ledger d ?f" by simp
    then show ?thesis unfolding eq deposit_exit_def
      by (auto simp: retryable_iff split: attempt_outcome.splits)
  qed
qed

lemmas classify_eval = isNonceError_def isNetworkError_def errorMessage_def toLowerCase_def

lemma counter_final_example:
  "counter_final ledger_example data_example =
     \<lparr>attempt = 3,
      result = \<lparr>workerId = 5, txIndex = 5, success = False,
                 error = Some ''Transaction reverted with status 0'', hash = Some ''0xab''\<rparr>,
      delays = [1000, 2000]\<rparr>"
  by (simp add: counter_final_def workerBenchmark_start_def workerBenchmark_loop.simps
      ledger_example_def data_example_def MAX_ATTEMPTS_Counter_def RETRY_DELAY_MS_Counter_def
      classify_eval)

lemma deposit_final_example:
  "deposit_final ledger_example deposit_data_example =
     \<lparr>attempt = 3,
      result = \<lparr>workerId = 5, txIndex = 5, success = False,
                 error = Some ''Transaction reverted with status 0'', hash = Some ''0xab'',
                 amountDeposited = ''0''\<rparr>,
      delays = [2000, 4000]\<rparr>"
  by (simp add: deposit_final_def workerAccountBalance_start_def workerAccountBalance_loop.simps
      ledger_example_def deposit_data_example_def MAX_ATTEMPTS_AccountBalance_def
      RETRY_DELAY_MS_AccountBalance_def classify_eval)

text \<open>
  C4. \<open>counter_final\<close> and \<open>deposit_final\<close> are the states in which the two workers
  leave their loop; \<open>attempt\<close> is then the number of attempts used. For every attempt
  \<open>j\<close> that was made: a receipt ends the loop at \<open>j\<close>, as a success exactly for status 1
  (so a rejection at attempt 1 gives one attempt used); a thrown error is followed by
  another attempt if and only if it is retryable (code \<^verbatim>\<open>NONCE_EXPIRED\<close>, or a message
  that contains one of the seven phrases, compared in lower case) and
  \<open>j < MAX_ATTEMPTS\<close>, and otherwise ends the loop as a failure carrying its message.
\<close>

theorem retry_classification:
  "1 \<le> attempt (counter_final ledger d)
   \<and> (1 \<le> j \<and> j \<le> attempt (counter_final ledger d) \<longrightarrow>
       (case ledger j of
          Confirmed status h \<Rightarrow>
            attempt (counter_final ledger d) = j
            \<and> (success (result (counter_final ledger d)) \<longleftrightarrow> status = Some 1)
        | Throws e \<Rightarrow>
            (j < attempt (counter_final ledger d) \<longleftrightarrow> retryable e \<and> j < MAX_ATTEMPTS_Counter)
            \<and> (j = attempt (counter_final ledger d)
                 \<longrightarrow> \<not> success (result (counter_final ledger d))
                     \<and> error (result (counter_final ledger d)) = Some (message e))))
   \<and> 1 \<le> attempt (deposit_final ledger' d')
   \<and> (1 \<le> j' \<and> j' \<le> attempt (deposit_final ledger' d') \<longrightarrow>
       (case ledger' j' of
          Confirmed status h \<Rightarrow>
            attempt (deposit_final ledger' d') = j'
            \<and> (success (result (deposit_final ledger' d')) \<longleftrightarrow> status = Some 1)
        | Throws e \<Rightarrow>
            (j' < attempt (deposit_final ledger' d')
               \<longleftrightarrow> retryable e \<and> j' < MAX_ATTEMPTS_AccountBalance)
            \<and> (j' = attempt (deposit_final ledger' d')
                 \<longrightarrow> \<not> success (result (deposit_final ledger' d'))
                     \<and> error (result (deposit_final ledger' d')) = Some (message e))))"
proof (intro conjI impI)
  show "1 \<le> attempt (counter_final ledger d)"
    using counter_final_char [of ledger d] by simp
  show "1 \<le> attempt (deposit_final ledger' d')"
    using deposit_final_char [of ledger' d'] by simp
qed (erule conjE, rule counter_classification deposit_classification, assumption+)+

theorem retry_classification_witness:
  "(1::nat) \<le> 3 \<and> 3 \<le> attempt (counter_final ledger_example data_example)
   \<and> ledger_example 3 = Confirmed (Some 0) ''0xab''
   \<and> attempt (counter_final ledger_example data_example) = 3
   \<and> \<not> success (result (counter_final ledger_example data_example))
   \<and> (1::nat) \<le> 1 \<and> 1 \<le> attempt (deposit_final ledger_example deposit_data_example)
   \<and> ledger_example 1 = Throws \<lparr>code = None, message = ''Nonce too low''\<rparr>
   \<and> 1 < attempt (deposit_final ledger_example deposit_data_example)
   \<and> retryable \<lparr>code = None, message = ''Nonce too low''\<rparr>
   \<and> 1 < MAX_ATTEMPTS_AccountBalance"
  using retry_classification [of ledger_example data_example 3 ledger_example deposit_data_example 1]
  by (simp add: counter_final_example deposit_final_example ledger_example_def)

text \<open>
  C5. Both loops are total functions (their termination is proved with the measure
  \<open>MAX_ATTEMPTS - attempt\<close>), so a worker whose attempts all return leaves its loop. It
  has then made at least one and at most \<open>MAX_ATTEMPTS\<close> attempts, and the last one
  either returned a receipt (success or rejection) or threw an error that is not
  retryable or came at the last attempt of the budget.
\<close>

theorem retry_bound:
  "1 \<le> attempt (counter_final ledger d)
   \<and> attempt (counter_final ledger d) \<le> MAX_ATTEMPTS_Counter
   \<and> MAX_ATTEMPTS_Counter = 100
   \<and> ((\<exists>status h. ledger (attempt (counter_final ledger d)) = Confirmed status h)
      \<or> (\<exists>e. ledger (attempt (counter_final ledger d)) = Throws e
              \<and> (attempt (counter_final ledger d) = MAX_ATTEMPTS_Counter \<or> \<not> retryable e)))
   \<and> 1 \<le> attempt (deposit_final ledger' d')
   \<and> attempt (deposit_final ledger' d') \<le> MAX_ATTEMPTS_AccountBalance
   \<and> MAX_ATTEMPTS_AccountBalance = 1000
   \<and> ((\<exists>status h. ledger' (attempt (deposit_final ledger' d')) = Confirmed status h)
      \<or> (\<exists>e. ledger' (attempt (deposit_final ledger' d')) = Throws e
              \<and> (attempt (deposit_final ledger' d') = MAX_ATTEMPTS_AccountBalance
                  \<or> \<not> retryable e)))"
proof -
  note c = counter_final_char [of ledger d] and d = deposit_final_char [of ledger' d']
  have 1: "(\<exists>status h. ledger (attempt (counter_final ledger d)) = Confirmed status h)
      \<or> (\<exists>e. ledger (attempt (counter_final ledger d)) = Throws e
              \<and> (attempt (counter_final ledger d) = MAX_ATTEMPTS_Counter \<or> \<not> retryable e))"
    using c unfolding counter_exit_def retryable_iff
    by (cases "ledger (attempt (counter_final ledger d))") auto
  have 2: "(\<exists>status h. ledger' (attempt (deposit_final ledger' d')) = Confirmed status h)
      \<or> (\<exists>e. ledger' (attempt (deposit_final ledger' d')) = Throws e
              \<and> (attempt (deposit_final ledger' d') = MAX_ATTEMPTS_AccountBalance
                  \<or> \<not> retryable e))"
    using d unfolding deposit_exit_def retryable_iff
    by (cases "ledger' (attempt (deposit_final ledger' d'))") auto
  from c d 1 2 show ?thesis
    by (simp add: MAX_ATTEMPTS_Counter_def MAX_ATTEMPTS_AccountBalance_def)
qed

theorem retry_bound_witness:
  "attempt (counter_final ledger_down data_example) = 100
   \<and> \<not> success (result (counter_final ledger_down data_example))
   \<and> attempt (deposit_final ledger_example deposit_data_example) = 3"
proof -
  note b = retry_bound [of ledger_down data_example ledger_example deposit_data_example]
  have r: "retryable \<lparr>code = None, message = ''request timeout''\<rparr>"
    by (simp add: retryable_def toLowerCase_def)
  from b r have a: "attempt (counter_final ledger_down data_example) = 100"
    by (auto simp: ledger_down_def)
  from counter_classification [of 100 ledger_down data_example] a
  have "\<not> success (result (counter_final ledger_down data_example))"
    by (simp add: ledger_down_def)
  with a show ?thesis by (simp add: deposit_final_example)
qed

lemma sorted_backoff: "sorted (map (\<lambda>j. (D::nat) * 2 ^ (j - 1)) [a ..< b])"
proof -
  have "sorted_wrt (\<lambda>x y. D * 2 ^ (x - 1) \<le> D * 2 ^ (y - 1)) [a ..< b]"
    by (rule sorted_wrt_mono_rel [of _ "(<)"])
       (auto intro!: mult_le_mono2 power_increasing)
  then show ?thesis by (simp add: sorted_map)
qed

lemma backoff_nth:
  assumes "1 \<le> k" "k < n"
  shows "map (\<lambda>j. (D::nat) * 2 ^ (j - 1)) [1 ..< n] ! (k - 1) = D * 2 ^ (k - 1)"
proof -
  from assms have "k - 1 < length [1 ..< n]" by simp
  then have "map (\<lambda>j. D * 2 ^ (j - 1)) [1 ..< n] ! (k - 1)
      = D * 2 ^ (([1 ..< n] ! (k - 1)) - 1)"
    by (rule nth_map)
  also from assms have "[1 ..< n] ! (k - 1) = k" by simp
  finally show ?thesis .
qed

text \<open>
  C6. The delays handed to \<^verbatim>\<open>setTimeout\<close> by a worker, in order: the delay after
  attempt \<open>k\<close> (before attempt \<open>k + 1\<close>) is \<open>RETRY_DELAY_MS * 2 ^ (k - 1)\<close>, with
  \<open>RETRY_DELAY_MS\<close> 1000 in the counter worker and 2000 in the deposit worker, and the
  sequence never decreases. The numbers are those of \<^verbatim>\<open>Math.pow\<close> on doubles: a power
  of two times 125, below \<open>2 ^ 1024\<close> (\<open>backoff_in_double_range\<close>). What the
  timer of the runtime does with a delay is outside the model.
\<close>

theorem backoff_delays:
  "delays (counter_final ledger d)
     = map (\<lambda>k. RETRY_DELAY_MS_Counter * 2 ^ (k - 1)) [1 ..< attempt (counter_final ledger d)]
   \<and> RETRY_DELAY_MS_Counter = 1000
   \<and> sorted (delays (counter_final ledger d))
   \<and> (1 \<le> k \<and> k < attempt (counter_final ledger d)
        \<longrightarrow> delays (counter_final ledger d) ! (k - 1) = 1000 * 2 ^ (k - 1)
            \<and> (k + 1 < attempt (counter_final ledger d)
                 \<longrightarrow> delays (counter_final ledger d) ! (k - 1)
                       \<le> delays (counter_final ledger d) ! k))
   \<and> delays (deposit_final ledger' d')
     = map (\<lambda>k. RETRY_DELAY_MS_AccountBalance * 2 ^ (k - 1))
           [1 ..< attempt (deposit_final ledger' d')]
   \<and> RETRY_DELAY_MS_AccountBalance = 2000
   \<and> sorted (delays (deposit_final ledger' d'))
   \<and> (1 \<le> k' \<and> k' < attempt (deposit_final ledger' d')
        \<longrightarrow> delays (deposit_final ledger' d') ! (k' - 1) = 2000 * 2 ^ (k' - 1)
            \<and> (k' + 1 < attempt (deposit_final ledger' d')
                 \<longrightarrow> delays (deposit_final ledger' d') ! (k' - 1)
                       \<le> delays (deposit_final ledger' d') ! k'))"
proof -
  let ?f = "counter_final ledger d" and ?g = "deposit_final ledger' d'"
  from counter_final_char [of ledger d]
  have c: "delays ?f = map (\<lambda>k. RETRY_DELAY_MS_Counter * 2 ^ (k - 1)) [1 ..< attempt ?f]"
    by simp
  from deposit_final_char [of ledger' d']
  have d: "delays ?g = map (\<lambda>k. RETRY_DELAY_MS_AccountBalance * 2 ^ (k - 1)) [1 ..< attempt ?g]"
    by simp
  have sc: "sorted (delays ?f)" unfolding c by (rule sorted_backoff)
  have sd: "sorted (delays ?g)" unfolding d by (rule sorted_backoff)
  have nc: "delays ?f ! (k - 1) = 1000 * 2 ^ (k - 1)" if "1 \<le> k" "k < attempt ?f"
    using backoff_nth [OF that, of RETRY_DELAY_MS_Counter] c
    by (simp add: RETRY_DELAY_MS_Counter_def)
  have nd: "delays ?g ! (k' - 1) = 2000 * 2 ^ (k' - 1)" if "1 \<le> k'" "k' < attempt ?g"
    using backoff_nth [OF that, of RETRY_DELAY_MS_AccountBalance] d
    by (simp add: RETRY_DELAY_MS_AccountBalance_def)
  have mc: "delays ?f ! (k - 1) \<le> delays ?f ! k" if "k + 1 < attempt ?f"
  proof -
    from that c have "k < length (delays ?f)" by simp
    with sc show ?thesis by (simp add: sorted_iff_nth_mono)
  qed
  have md: "delays ?g ! (k' - 1) \<le> delays ?g ! k'" if "k' + 1 < attempt ?g"
  proof -
    from that d have "k' < length (delays ?g)" by simp
    with sd show ?thesis by (simp add: sorted_iff_nth_mono)
  qed
  have rc: "RETRY_DELAY_MS_Counter = 1000" by (simp add: RETRY_DELAY_MS_Counter_def)
  have rd: "RETRY_DELAY_MS_AccountBalance = 2000"
    by (simp add: RETRY_DELAY_MS_AccountBalance_def)
  from c d sc sd nc nd mc md rc rd show ?thesis by blast
qed

theorem backoff_delays_witness:
  "delays (counter_final ledger_example data_example) = [1000, 2000]
   \<and> (1::nat) \<le> 1 \<and> 1 < attempt (counter_final ledger_example data_example)
   \<and> delays (counter_final ledger_example data_example) ! (1 - 1) = 1000 * 2 ^ (1 - 1)
   \<and> 1 + 1 < attempt (counter_final ledger_example data_example)
   \<and> delays (counter_final ledger_example data_example) ! (1 - 1)
       \<le> delays (counter_final ledger_example data_example) ! 1
   \<and> delays (deposit_final ledger_example deposit_data_example) = [2000, 4000]
   \<and> (1::nat) \<le> 2 \<and> 2 < attempt (deposit_final ledger_example deposit_data_example)
   \<and> delays (deposit_final ledger_example deposit_data_example) ! (2 - 1) = 2000 * 2 ^ (2 - 1)"
  using backoff_delays [of ledger_example data_example 1 ledger_example deposit_data_example 2]
  by (simp add: counter_final_example deposit_final_example)

lemma backoff_in_double_range:
  "k < MAX_ATTEMPTS_Counter \<Longrightarrow> RETRY_DELAY_MS_Counter * 2 ^ (k - 1) < 2 ^ 1024"
  "k' < MAX_ATTEMPTS_AccountBalance \<Longrightarrow> RETRY_DELAY_MS_AccountBalance * 2 ^ (k' - 1) < 2 ^ 1024"
proof -
  assume "k < MAX_ATTEMPTS_Counter"
  then have "(2::nat) ^ (k - 1) \<le> 2 ^ 1000"
    by (intro power_increasing) (simp_all add: MAX_ATTEMPTS_Counter_def)
  then have "RETRY_DELAY_MS_Counter * 2 ^ (k - 1) \<le> 2 ^ 11 * 2 ^ 1000"
    by (intro mult_mono) (simp_all add: RETRY_DELAY_MS_Counter_def)
  also have "\<dots> < (2::nat) ^ 1024" unfolding power_add [symmetric] by (intro power_strict_increasing) simp_all
  finally show "RETRY_DELAY_MS_Counter * 2 ^ (k - 1) < 2 ^ 1024" .
next
  assume "k' < MAX_ATTEMPTS_AccountBalance"
  then have "(2::nat) ^ (k' - 1) \<le> 2 ^ 1000"
    by (intro power_increasing) (simp_all add: MAX_ATTEMPTS_AccountBalance_def)
  then have "RETRY_DELAY_MS_AccountBalance * 2 ^ (k' - 1) \<le> 2 ^ 11 * 2 ^ 1000"
    by (intro mult_mono) (simp_all add: RETRY_DELAY_MS_AccountBalance_def)
  also have "\<dots> < (2::nat) ^ 1024" unfolding power_add [symmetric] by (intro power_strict_increasing) simp_all
  finally show "RETRY_DELAY_MS_AccountBalance * 2 ^ (k' - 1) < 2 ^ 1024" .
qed

section \<open>Properties of the aggregation and the verification\<close>

subsection \<open>Decimal strings are read back\<close>

text \<open>
  \<^verbatim>\<open>BigInt(x.toString())\<close> is \<open>x\<close>: the digits carry no white space, no prefix of another
  radix and no sign of their own.
\<close>

lemma digit_char_in: "d < 10 \<Longrightarrow> digit_char d \<in> set ''0123456789''"
  unfolding digit_char_def by (rule nth_mem) simp

lemma digit_of_digit_char: "d < 10 \<Longrightarrow> digit_of (digit_char d) = Some d"
proof -
  assume "d < 10"
  then have "d \<in> {0, 1, 2, 3, 4, 5, 6, 7, 8, 9}" by auto
  then show ?thesis
    by (auto simp: digit_char_def digit_of_def)
qed

lemma digits_set: "set (digits n) \<subseteq> set ''0123456789''"
proof (induction n rule: digits.induct)
  case (1 n)
  show ?case
  proof (cases "n < 10")
    case True
    then show ?thesis using digit_char_in [of n] by (subst digits.simps) simp
  next
    case False
    have "n mod 10 < 10" by simp
    from digit_char_in [OF this] "1" [OF False] False show ?thesis
      by (subst digits.simps) simp
  qed
qed

lemma digits_not_Nil: "digits n \<noteq> []"
  by (subst digits.simps) simp

lemma parse_digits_snoc:
  "parse_digits r acc (xs @ [c]) =
     (case parse_digits r acc xs of
        None \<Rightarrow> None
      | Some a \<Rightarrow> (case digit_of c of None \<Rightarrow> None
                   | Some v \<Rightarrow> if v < r then Some (a * r + v) else None))"
  by (induction xs arbitrary: acc) (auto split: option.splits)

lemma parse_digits_digits: "parse_digits 10 0 (digits n) = Some n"
proof (induction n rule: digits.induct)
  case (1 n)
  show ?case
  proof (cases "n < 10")
    case True
    then show ?thesis by (subst digits.simps) (simp add: digit_of_digit_char)
  next
    case False
    have m: "n mod 10 < 10" by simp
    from "1" [OF False] False m show ?thesis
      by (subst digits.simps) (simp add: parse_digits_snoc digit_of_digit_char)
  qed
qed

lemma parse_number_digits: "parse_number 10 (digits n) = Some n"
  by (simp add: parse_number_def digits_not_Nil parse_digits_digits)

lemma trim_id:
  assumes "s \<noteq> []" "\<not> isWhiteSpace (hd s)" "\<not> isWhiteSpace (last s)"
  shows "trim s = s"
proof -
  from assms have 1: "dropWhile isWhiteSpace s = s" by (cases s) simp_all
  from assms have "rev s \<noteq> []" "\<not> isWhiteSpace (hd (rev s))" by (simp_all add: hd_rev)
  then have "dropWhile isWhiteSpace (rev s) = rev s" by (cases "rev s") simp_all
  with 1 show ?thesis by (simp add: trim_def)
qed

lemma digit_chars:
  assumes "c \<in> set ''0123456789''"
  shows "\<not> isWhiteSpace c" "c \<noteq> CHR ''-''" "c \<noteq> CHR ''+''"
    "c \<notin> set ''xXoObB''"
  using assms by (auto simp: isWhiteSpace_def)

lemma digits_hd: "hd (digits n) \<in> set ''0123456789''"
  using digits_set [of n] digits_not_Nil [of n] hd_in_set by blast

lemma digits_last: "last (digits n) \<in> set ''0123456789''"
  using digits_set [of n] digits_not_Nil [of n] last_in_set by blast

lemma digits_no_prefix:
  assumes "set ds \<subseteq> set ''0123456789''" "p \<in> set ''xXoObB''"
  shows "take 2 ds \<noteq> [CHR ''0'', p]"
proof
  assume "take 2 ds = [CHR ''0'', p]"
  then obtain r where "ds = CHR ''0'' # p # r"
    by (cases ds; cases "tl ds") (auto split: if_splits)
  with assms(1) have "p \<in> set ''0123456789''" by simp
  from digit_chars(4) [OF this] assms(2) show False by blast
qed

lemma StringToBigInt_digits: "StringToBigInt (digits n) = Some (int n)"
proof -
  let ?s = "digits n"
  note c = digit_chars [OF digits_hd [of n]]
  have t: "trim ?s = ?s"
    by (rule trim_id [OF digits_not_Nil c(1) digit_chars(1) [OF digits_last]])
  have p: "take 2 ?s \<noteq> [CHR ''0'', q]" if "q \<in> set ''xXoObB''" for q
    by (rule digits_no_prefix [OF digits_set that])
  have "take 2 ?s \<notin> set [''0x'', ''0X'']" "take 2 ?s \<notin> set [''0o'', ''0O'']"
    "take 2 ?s \<notin> set [''0b'', ''0B'']"
    using p by auto
  then show ?thesis
    using c digits_not_Nil [of n]
    by (simp add: StringToBigInt_def t parse_number_digits del: set_simps)
qed

lemma StringToBigInt_toString: "StringToBigInt (BigInt_toString x) = Some x"
proof (cases "x < 0")
  case False
  then show ?thesis by (simp add: BigInt_toString_def StringToBigInt_digits)
next
  case True
  let ?s = "CHR ''-'' # digits (nat (- x))"
  have t: "trim ?s = ?s"
    using digit_chars(1) [OF digits_last [of "nat (- x)"]] digits_not_Nil [of "nat (- x)"]
    by (intro trim_id) (simp_all add: isWhiteSpace_def)
  have "take 2 ?s \<notin> set [''0x'', ''0X'']" "take 2 ?s \<notin> set [''0o'', ''0O'']"
    "take 2 ?s \<notin> set [''0b'', ''0B'']"
    by simp_all
  then show ?thesis
    using True
    by (simp add: BigInt_toString_def StringToBigInt_def t parse_number_digits del: set_simps take_Cons_numeral)
qed

subsection \<open>Loops over the tasks and over the results\<close>

lemma for_loop_eq: "for_loop T i f xs = xs @ map f [i ..< nat T]"
proof (induction T i f xs rule: for_loop.induct)
  case (1 T i f xs)
  show ?case
  proof (cases "int i < T")
    case True
    then have "i < nat T" by simp
    then have "[i ..< nat T] = i # [i + 1 ..< nat T]" by (simp add: upt_conv_Cons)
    with "1" [OF True] True show ?thesis by (subst for_loop.simps) simp
  next
    case False
    then have "nat T \<le> i" by simp
    with False show ?thesis by (subst for_loop.simps) simp
  qed
qed

lemma Promise_all_Inr: "Promise_all (map Inr vs) = Inr vs"
  by (induction vs) simp_all

lemma Promise_all_InrD: "Promise_all ps = Inr vs \<Longrightarrow> ps = map Inr vs"
proof (induction ps arbitrary: vs)
  case (Cons p ps)
  then show ?case by (cases p) (auto split: sum.splits)
qed simp

lemma Promise_all_Inl: "Promise_all ps = Inl e \<Longrightarrow> Inl e \<in> set ps"
proof (induction ps)
  case (Cons p ps)
  then show ?case by (cases p) (auto split: sum.splits)
qed simp

lemma length_succeeded_failed: "length (succeeded rs) + length (failed rs) = length rs"
  by (induction rs rule: succeeded.induct) simp_all

lemma forEach_increments_totals:
  "totalSuccessfulIncrements (forEach_increments rs t)
     = totalSuccessfulIncrements t + length (succeeded rs)
   \<and> totalFailedIncrements (forEach_increments rs t)
     = totalFailedIncrements t + length (failed rs)"
  by (induction rs t rule: forEach_increments.induct) simp_all

lemma forEach_deposits_totals:
  "forEach_deposits rs t = Inr t' \<Longrightarrow>
   totalSuccessfulDeposits t' = totalSuccessfulDeposits t + length (succeeded rs)
   \<and> totalFailedDeposits t' = totalFailedDeposits t + length (failed rs)
   \<and> (\<exists>vs. map (\<lambda>res. BigInt (amountDeposited res)) (succeeded rs) = map Inr vs
           \<and> totalAmountDepositedWei t' = totalAmountDepositedWei t + sum_list vs)"
proof (induction rs t rule: forEach_deposits.induct)
  case (1 t)
  then show ?case by simp
next
  case (2 res rs t)
  show ?case
  proof (cases "success res")
    case False
    with 2 show ?thesis by simp
  next
    case True
    with "2.prems" obtain v where v: "BigInt (amountDeposited res) = Inr v"
      by (auto split: sum.splits)
    let ?t = "t\<lparr>totalSuccessfulDeposits := totalSuccessfulDeposits t + 1,
                 totalAmountDepositedWei := totalAmountDepositedWei t + v\<rparr>"
    from "2.prems" True v have "forEach_deposits rs ?t = Inr t'" by simp
    from "2.IH"(1) [OF True v this] obtain vs where
      a: "totalSuccessfulDeposits t' = totalSuccessfulDeposits t + 1 + length (succeeded rs)"
      and b: "totalFailedDeposits t' = totalFailedDeposits t + length (failed rs)"
      and c: "map (\<lambda>res. BigInt (amountDeposited res)) (succeeded rs) = map Inr vs"
      and d: "totalAmountDepositedWei t' = totalAmountDepositedWei t + v + sum_list vs"
      by auto
    from c v True have
      "map (\<lambda>res. BigInt (amountDeposited res)) (succeeded (Obj res # rs)) = map Inr (v # vs)"
      by simp
    moreover from d have "totalAmountDepositedWei t' = totalAmountDepositedWei t + sum_list (v # vs)"
      by simp
    ultimately show ?thesis using a b True by (intro conjI exI [of _ "v # vs"]) simp_all
  qed
next
  case (3 rs t)
  then show ?case by simp
qed

lemma BigInt_toString: "BigInt (BigInt_toString x) = Inr x"
  by (simp add: BigInt_def StringToBigInt_toString)

lemma BigInt_zero: "BigInt ''0'' = Inr 0"
  by (simp add: BigInt_def StringToBigInt_def trim_def isWhiteSpace_def parse_number_def digit_of_def)

subsection \<open>Results of the workers\<close>

lemma workerBenchmark_Inr:
  "workerBenchmark eth artifacts ledger d = Inr r \<Longrightarrow> r = result (counter_final ledger d)"
  by (auto simp: workerBenchmark_def counter_final_def split: sum.splits)

lemma workerAccountBalance_Inr:
  "workerAccountBalance eth artifacts ledger d = Inr r \<Longrightarrow> r = result (deposit_final ledger d)"
  by (auto simp: workerAccountBalance_def deposit_final_def split: sum.splits)

lemma deposit_final_amount:
  "amountDeposited (result (deposit_final ledger d))
     = (if success (result (deposit_final ledger d))
        then BigInt_toString (depositAmountWei d) else ''0'')"
proof -
  from deposit_final_char [of ledger d] have "deposit_exit ledger d (deposit_final ledger d)"
    by simp
  then show ?thesis
    unfolding deposit_exit_def
    by (cases "ledger (attempt (deposit_final ledger d))") auto
qed

lemma map_Inr_results:
  assumes "map f ds = map Inr rs" and "\<And>d r. f d = Inr r \<Longrightarrow> r = g d"
  shows "rs = map g ds"
  using assms(1)
proof (induction ds arbitrary: rs)
  case Nil
  then show ?case by simp
next
  case (Cons d ds)
  then obtain r rs' where rs: "rs = r # rs'" by (cases rs) auto
  with Cons.prems have "f d = Inr r" "map f ds = map Inr rs'" by simp_all
  with assms(2) [of d r] Cons.IH [of rs'] rs show ?case by simp
qed

lemma deposit_results_Inr:
  assumes "deposit_results eth artifacts ledger keys T wc address url amount = Inr rs"
  shows "rs = map (\<lambda>i. result (deposit_final (ledger i)
                 (deposit_workerData keys wc address url amount i))) [0 ..< nat T]"
proof -
  let ?ds = "map (deposit_workerData keys wc address url amount) [0 ..< nat T]"
  from assms have "map (\<lambda>d. workerAccountBalance eth artifacts (ledger (txIndex d)) d) ?ds
      = map Inr rs"
    unfolding deposit_results_def for_loop_eq by (simp add: Promise_all_InrD)
  then have "rs = map (\<lambda>d. result (deposit_final (ledger (txIndex d)) d)) ?ds"
    by (rule map_Inr_results) (rule workerAccountBalance_Inr)
  then show ?thesis by (simp add: comp_def deposit_workerData_def)
qed

lemma worker_results_Inr:
  assumes "Promise_all
             (map (\<lambda>d. workerBenchmark eth artifacts (ledger (txIndex d)) d)
                (for_loop T 0 (workerData keys wc address url) [])) = Inr rs"
  shows "rs = map (\<lambda>i. result (counter_final (ledger i) (workerData keys wc address url i)))
                [0 ..< nat T]"
proof -
  let ?ds = "map (workerData keys wc address url) [0 ..< nat T]"
  from assms have "map (\<lambda>d. workerBenchmark eth artifacts (ledger (txIndex d)) d) ?ds
      = map Inr rs"
    unfolding for_loop_eq by (simp add: Promise_all_InrD)
  then have "rs = map (\<lambda>d. result (counter_final (ledger (txIndex d)) d)) ?ds"
    by (rule map_Inr_results) (rule workerBenchmark_Inr)
  then show ?thesis by (simp add: comp_def workerData_def)
qed

lemma succeeded_Obj_set: "set (succeeded (map Obj rs)) = {r \<in> set rs. success r}"
  by (induction rs) auto

lemma succeeded_Obj: "succeeded (map Obj rs) = filter success rs"
  by (induction rs) auto

lemma failed_Obj: "length (failed (map Obj rs)) = length (filter (\<lambda>r. \<not> success r) rs)"
  by (induction rs) auto

lemma forEach_deposits_total:
  assumes "\<And>r. r \<in> set (succeeded rs) \<Longrightarrow> \<exists>v. BigInt (amountDeposited r) = Inr v"
  shows "\<exists>t'. forEach_deposits rs t = Inr t'"
  using assms
proof (induction rs t rule: forEach_deposits.induct)
  case (2 res rs t)
  show ?case
  proof (cases "success res")
    case True
    with "2.prems" [of res] obtain v where v: "BigInt (amountDeposited res) = Inr v" by auto
    from "2.IH"(1) [OF True v] "2.prems" True v show ?thesis by simp
  next
    case False
    with 2 show ?thesis by simp
  qed
qed simp_all

lemma sum_same_amount:
  assumes "map (\<lambda>res. BigInt (amountDeposited res)) xs = map Inr vs"
    and "\<And>r. r \<in> set xs \<Longrightarrow> amountDeposited r = BigInt_toString amount"
  shows "sum_list vs = amount * int (length xs)"
  using assms
proof (induction xs arbitrary: vs)
  case Nil
  then show ?case by simp
next
  case (Cons x xs)
  then obtain v vs' where vs: "vs = v # vs'" by (cases vs) auto
  from Cons.prems(2) [of x] have "BigInt (amountDeposited x) = Inr amount"
    by (simp add: BigInt_toString)
  with Cons.prems(1) vs have v: "v = amount"
    and r: "map (\<lambda>res. BigInt (amountDeposited res)) xs = map Inr vs'" by simp_all
  from Cons.IH [OF r] Cons.prems(2) have "sum_list vs' = amount * int (length xs)" by simp
  with v vs show ?case by (simp add: algebra_simps)
qed

text \<open>
  C3. The verification of a completed run, in the deposit benchmark and in the counter
  benchmark with workers: the expected state is the initial state plus the sum of the
  effects of the succeeded results only (the deposited amounts, or one per increment),
  the run is verified exactly when the state read from the chain equals it, and the
  chain is returned as it was read.
\<close>

theorem verification_identity:
  "(deposit_verify c initialContractEthBalance rs = Inr (e, c') \<longrightarrow>
      c' = c
      \<and> finalContractEthBalance e = getBalance c
      \<and> expectedContractEthBalance e = initialContractEthBalance + totalDeposited e
      \<and> (\<exists>vs. map (\<lambda>res. BigInt (amountDeposited res)) (succeeded rs) = map Inr vs
              \<and> totalDeposited e = sum_list vs)
      \<and> (verified e \<longleftrightarrow> getBalance c = expectedContractEthBalance e))
   \<and> (worker_verify c initialCount rs' = (e', c'') \<longrightarrow>
      c'' = c
      \<and> finalCount e' = count c
      \<and> expectedCount e' = initialCount + int (length (succeeded rs'))
      \<and> (verified e' \<longleftrightarrow> count c = expectedCount e'))"
proof (intro conjI impI)
  assume a: "deposit_verify c initialContractEthBalance rs = Inr (e, c')"
  then obtain t where t: "forEach_deposits rs
       \<lparr>totalSuccessfulDeposits = 0, totalFailedDeposits = 0, totalAmountDepositedWei = 0\<rparr>
       = Inr t"
    by (auto simp: deposit_verify_def split: sum.splits)
  with a have e: "e = \<lparr>verified = (getBalance c = initialContractEthBalance + totalAmountDepositedWei t),
                finalContractEthBalance = getBalance c,
                expectedContractEthBalance = initialContractEthBalance + totalAmountDepositedWei t,
                successfulDeposits = totalSuccessfulDeposits t,
                failedDeposits = totalFailedDeposits t,
                totalDeposited = totalAmountDepositedWei t\<rparr>"
    and c: "c' = c"
    by (auto simp: deposit_verify_def)
  show "c' = c" by (rule c)
  show "finalContractEthBalance e = getBalance c" by (simp add: e)
  show "expectedContractEthBalance e = initialContractEthBalance + totalDeposited e"
    by (simp add: e)
  show "verified e \<longleftrightarrow> getBalance c = expectedContractEthBalance e" by (simp add: e)
  from forEach_deposits_totals [OF t]
  show "\<exists>vs. map (\<lambda>res. BigInt (amountDeposited res)) (succeeded rs) = map Inr vs
              \<and> totalDeposited e = sum_list vs"
    by (simp add: e)
next
  assume a: "worker_verify c initialCount rs' = (e', c'')"
  note t = forEach_increments_totals
    [of rs' "\<lparr>totalSuccessfulIncrements = 0, totalFailedIncrements = 0\<rparr>"]
  from a show "c'' = c" by (simp add: worker_verify_def Let_def)
  from a show "finalCount e' = count c" by (auto simp: worker_verify_def Let_def)
  from a t show "expectedCount e' = initialCount + int (length (succeeded rs'))"
    by (auto simp: worker_verify_def Let_def)
  from a show "verified e' \<longleftrightarrow> count c = expectedCount e'"
    by (auto simp: worker_verify_def Let_def)
qed

lemmas BigInt_eval = BigInt_def StringToBigInt_def trim_def isWhiteSpace_def parse_number_def
  digit_of_def

lemma deposit_verify_example:
  "deposit_verify chain_example 5 deposit_values_example
     = Inr (\<lparr>verified = True, finalContractEthBalance = 105, expectedContractEthBalance = 105,
             successfulDeposits = 1, failedDeposits = 2, totalDeposited = 100\<rparr>, chain_example)"
  by (simp add: deposit_verify_def deposit_values_example_def chain_example_def BigInt_eval)

lemma worker_verify_example:
  "worker_verify chain_example 1 counter_values_example
     = (\<lparr>verified = False, finalCount = 1, expectedCount = 2,
          reportedSuccess = 1, reportedFailures = 1\<rparr>, chain_example)"
  by (simp add: worker_verify_def counter_values_example_def chain_example_def)

theorem verification_identity_witness:
  "deposit_verify chain_example 5 deposit_values_example
     = Inr (\<lparr>verified = True, finalContractEthBalance = 105, expectedContractEthBalance = 105,
             successfulDeposits = 1, failedDeposits = 2, totalDeposited = 100\<rparr>, chain_example)
   \<and> map (\<lambda>res. BigInt (amountDeposited res)) (succeeded deposit_values_example) = map Inr [100]
   \<and> getBalance chain_example = 5 + sum_list [100]
   \<and> worker_verify chain_example 1 counter_values_example
     = (\<lparr>verified = False, finalCount = 1, expectedCount = 2,
          reportedSuccess = 1, reportedFailures = 1\<rparr>, chain_example)
   \<and> count chain_example \<noteq> 1 + int (length (succeeded counter_values_example))"
  using verification_identity [of chain_example 5 deposit_values_example _ chain_example
      1 counter_values_example _ chain_example]
    deposit_verify_example worker_verify_example
  by (simp add: deposit_values_example_def counter_values_example_def chain_example_def
      BigInt_eval)

lemma deposit_run_total:
  assumes res: "deposit_results eth artifacts ledger keys T wc address url amount = Inr rs"
  shows "\<exists>e. deposit_run eth artifacts ledger keys T wc address url amount initial c = Inr (e, c)
             \<and> successfulDeposits e = length (filter success rs)
             \<and> failedDeposits e = length (filter (\<lambda>r. \<not> success r) rs)
             \<and> totalDeposited e = amount * int (length (filter success rs))"
proof -
  let ?t0 = "\<lparr>totalSuccessfulDeposits = 0, totalFailedDeposits = 0,
              totalAmountDepositedWei = 0\<rparr>"
  note rs = deposit_results_Inr [OF res]
  have amt: "amountDeposited r = BigInt_toString amount" if "r \<in> set (succeeded (map Obj rs))"
    for r
  proof -
    from that have "r \<in> set rs" "success r" by (simp_all add: succeeded_Obj)
    with rs obtain i where
      "r = result (deposit_final (ledger i) (deposit_workerData keys wc address url amount i))"
      by auto
    with \<open>success r\<close> deposit_final_amount
      [of "ledger i" "deposit_workerData keys wc address url amount i"]
    show ?thesis by (simp add: deposit_workerData_def)
  qed
  have "\<exists>t'. forEach_deposits (map Obj rs) ?t0 = Inr t'"
    by (rule forEach_deposits_total) (simp add: amt BigInt_toString)
  then obtain t' where t': "forEach_deposits (map Obj rs) ?t0 = Inr t'" ..
  from forEach_deposits_totals [OF t'] obtain vs where
    s: "totalSuccessfulDeposits t' = length (succeeded (map Obj rs))"
    and f: "totalFailedDeposits t' = length (failed (map Obj rs))"
    and m: "map (\<lambda>res. BigInt (amountDeposited res)) (succeeded (map Obj rs)) = map Inr vs"
    and a: "totalAmountDepositedWei t' = sum_list vs"
    by auto
  from sum_same_amount [OF m amt] a
  have "totalAmountDepositedWei t' = amount * int (length (succeeded (map Obj rs)))" by simp
  with s f t' res show ?thesis
    by (simp add: deposit_run_def deposit_verify_def succeeded_Obj failed_Obj)
qed

text \<open>
  C9. A result of the deposit worker carries \<open>amountDeposited = "0"\<close> when
  \<open>success\<close> is false and the decimal string of \<open>depositAmountWei\<close> when it is true,
  and \<^verbatim>\<open>BigInt\<close> reads that string back as the amount. Hence the total the benchmark
  adds up is the amount times the number of successful results, and adding up never
  throws on the results of the workers.
\<close>

theorem deposit_amounts:
  "(workerAccountBalance eth artifacts ledger' d = Inr r \<longrightarrow>
      (if success r then amountDeposited r = BigInt_toString (depositAmountWei d)
       else amountDeposited r = ''0'')
      \<and> BigInt (BigInt_toString (depositAmountWei d)) = Inr (depositAmountWei d))
   \<and> (deposit_run eth artifacts ledger keys TOTAL_TRANSACTIONS workerCount address url amount
         initialContractEthBalance c = Inr (e, c') \<longrightarrow>
      totalDeposited e = amount * int (successfulDeposits e))
   \<and> (deposit_results eth artifacts ledger keys TOTAL_TRANSACTIONS workerCount address url amount
         = Inr rs \<longrightarrow>
      (\<exists>e. deposit_run eth artifacts ledger keys TOTAL_TRANSACTIONS workerCount address url amount
              initialContractEthBalance c = Inr (e, c)
            \<and> successfulDeposits e = length (filter success rs)
            \<and> totalDeposited e = amount * int (length (filter success rs))))"
proof (intro conjI impI)
  assume "workerAccountBalance eth artifacts ledger' d = Inr r"
  then have "r = result (deposit_final ledger' d)" by (rule workerAccountBalance_Inr)
  with deposit_final_amount [of ledger' d]
  show "if success r then amountDeposited r = BigInt_toString (depositAmountWei d)
        else amountDeposited r = ''0''"
    by simp
  show "BigInt (BigInt_toString (depositAmountWei d)) = Inr (depositAmountWei d)"
    by (rule BigInt_toString)
next
  assume a: "deposit_run eth artifacts ledger keys TOTAL_TRANSACTIONS workerCount address url amount
         initialContractEthBalance c = Inr (e, c')"
  then obtain rs where
    "deposit_results eth artifacts ledger keys TOTAL_TRANSACTIONS workerCount address url amount
       = Inr rs"
    by (auto simp: deposit_run_def split: sum.splits)
  from deposit_run_total [OF this, of initialContractEthBalance c] a
  show "totalDeposited e = amount * int (successfulDeposits e)" by auto
next
  assume "deposit_results eth artifacts ledger keys TOTAL_TRANSACTIONS workerCount address url amount
         = Inr rs"
  from deposit_run_total [OF this, of initialContractEthBalance c]
  show "\<exists>e. deposit_run eth artifacts ledger keys TOTAL_TRANSACTIONS workerCount address url amount
              initialContractEthBalance c = Inr (e, c)
            \<and> successfulDeposits e = length (filter success rs)
            \<and> totalDeposited e = amount * int (length (filter success rs))"
    by blast
qed

lemmas worker_eval = workerAccountBalance_def workerBenchmark_def getContractAbi_def
  workerAccountBalance_start_def workerBenchmark_start_def
  workerAccountBalance_loop.simps workerBenchmark_loop.simps
  MAX_ATTEMPTS_AccountBalance_def MAX_ATTEMPTS_Counter_def
  RETRY_DELAY_MS_AccountBalance_def RETRY_DELAY_MS_Counter_def
  deposit_workerData_def workerData_def
  artifacts_example_def ethers_example_def ledgers_example_def classify_eval

lemma deposit_worker_example:
  "workerAccountBalance ethers_example artifacts_example (ledgers_example 0) deposit_task_example
     = Inr \<lparr>workerId = 0, txIndex = 0, success = True, error = None, hash = Some ''0xab'',
            amountDeposited = ''100''\<rparr>"
  by (simp add: deposit_task_example_def worker_eval BigInt_toString_def digits.simps
      digit_char_def)

lemma deposit_results_example:
  "deposit_results ethers_example artifacts_example ledgers_example [key_example] 2 2 address_example
       url_example 100
     = Inr [\<lparr>workerId = 0, txIndex = 0, success = True, error = None, hash = Some ''0xab'',
              amountDeposited = ''100''\<rparr>,
            \<lparr>workerId = 1, txIndex = 1, success = False,
              error = Some ''transaction execution reverted'', hash = None,
              amountDeposited = ''0''\<rparr>]"
  by (simp add: deposit_results_def for_loop.simps worker_eval BigInt_toString_def digits.simps
      digit_char_def)

lemma deposit_run_example:
  "deposit_run ethers_example artifacts_example ledgers_example [key_example] 2 2 address_example
       url_example 100 5 chain_example
     = Inr (\<lparr>verified = True, finalContractEthBalance = 105, expectedContractEthBalance = 105,
             successfulDeposits = 1, failedDeposits = 1, totalDeposited = 100\<rparr>, chain_example)"
  by (simp add: deposit_run_def deposit_results_example deposit_verify_def chain_example_def
      BigInt_eval)

theorem deposit_amounts_witness:
  "workerAccountBalance ethers_example artifacts_example (ledgers_example 0) deposit_task_example
     = Inr \<lparr>workerId = 0, txIndex = 0, success = True, error = None, hash = Some ''0xab'',
            amountDeposited = ''100''\<rparr>
   \<and> BigInt_toString (depositAmountWei deposit_task_example) = ''100''
   \<and> BigInt ''100'' = Inr 100
   \<and> deposit_run ethers_example artifacts_example ledgers_example [key_example] 2 2 address_example
       url_example 100 5 chain_example
     = Inr (\<lparr>verified = True, finalContractEthBalance = 105, expectedContractEthBalance = 105,
             successfulDeposits = 1, failedDeposits = 1, totalDeposited = 100\<rparr>, chain_example)
   \<and> (100::int) = 100 * int 1
   \<and> deposit_results ethers_example artifacts_example ledgers_example [key_example] 2 2 address_example
       url_example 100
     = Inr [\<lparr>workerId = 0, txIndex = 0, success = True, error = None, hash = Some ''0xab'',
              amountDeposited = ''100''\<rparr>,
            \<lparr>workerId = 1, txIndex = 1, success = False,
              error = Some ''transaction execution reverted'', hash = None,
              amountDeposited = ''0''\<rparr>]"
  using deposit_amounts [where eth = ethers_example and artifacts = artifacts_example
      and ledger' = "ledgers_example 0" and d = deposit_task_example
      and ledger = ledgers_example and keys = "[key_example]" and TOTAL_TRANSACTIONS = 2
      and workerCount = 2 and address = address_example and url = url_example
      and amount = 100 and initialContractEthBalance = 5 and c = chain_example
      and c' = chain_example]
    deposit_worker_example deposit_run_example deposit_results_example
  by (simp add: deposit_task_example_def deposit_workerData_def BigInt_eval BigInt_toString_def
      digits.simps digit_char_def)

section \<open>Conservation of the task count\<close>

subsection \<open>Every task is settled once\<close>

lemma outcomes_snoc:
  "outcomes (es @ [e]) = outcomes es @ (case outcome_of e of None \<Rightarrow> [] | Some x \<Rightarrow> [x])"
  by (simp add: outcomes_def map_filter_def split: option.splits)

lemma handlers_snoc:
  "handlers L n s (es @ [e]) =
     (case handlers L n s es of None \<Rightarrow> None | Some s' \<Rightarrow> handler L n s' e)"
  by (induction es arbitrary: s) (auto split: option.splits)

lemma trace_inv_launch:
  assumes "distinct (running s)" "set ids \<inter> set (running s) = {}"
    "set ids \<union> set (running s) = {..<taskIndex s}"
  shows "distinct (running (launch L n s))
         \<and> set ids \<inter> set (running (launch L n s)) = {}
         \<and> set ids \<union> set (running (launch L n s)) = {..<taskIndex (launch L n s)}"
proof -
  let ?t = "launch L n s"
  from launch_admits [of s L n] have le: "taskIndex s \<le> taskIndex ?t"
    and r: "running ?t = running s @ [taskIndex s ..< taskIndex ?t]" by simp_all
  from assms(3) have old: "\<forall>x \<in> set (running s). x < taskIndex s"
    and old': "\<forall>x \<in> set ids. x < taskIndex s" by auto
  have 1: "distinct (running ?t)" unfolding r using assms(1) old by fastforce
  have 2: "set ids \<inter> set (running ?t) = {}" unfolding r using assms(2) old' by fastforce
  have 3: "set ids \<union> set (running ?t) = {..<taskIndex ?t}"
  proof -
    have "set ids \<union> set (running ?t) = {..<taskIndex s} \<union> {taskIndex s ..< taskIndex ?t}"
      unfolding r using assms(3) by auto
    also from le have "\<dots> = {..<taskIndex ?t}" by auto
    finally show ?thesis .
  qed
  from 1 2 3 show ?thesis by simp
qed

lemma trace_inv_runNext:
  assumes "distinct (running s)" "set ids \<inter> set (running s) = {}"
    "set ids \<union> set (running s) = {..<taskIndex s}"
  shows "distinct (running (runNext L n s))
         \<and> set ids \<inter> set (running (runNext L n s)) = {}
         \<and> set ids \<union> set (running (runNext L n s)) = {..<taskIndex (runNext L n s)}
         \<and> results (runNext L n s) = results s \<and> errors (runNext L n s) = errors s"
proof (cases "length (results s) + errors s = n")
  case True
  with assms show ?thesis by (simp add: runNext_def resolve_fields)
next
  case False
  with trace_inv_launch [OF assms, of L n] launch_keeps [of L n s] show ?thesis
    by (simp add: runNext_def)
qed

lemma trace_inv_init: "trace_inv [] (runTasksWithConcurrency n L)"
  using trace_inv_runNext [of init_sched "[]" L n]
  by (simp add: trace_inv_def runTasksWithConcurrency_def outcomes_def map_filter_def
      init_sched_def)

lemma trace_inv_handler:
  assumes inv: "trace_inv es s" and h: "handler L n s e = Some s'"
  shows "trace_inv (es @ [e]) s'"
proof (cases e)
  case (Resolves i)
  with h have i: "i \<in> set (running s)"
    and s': "s' = s\<lparr>results := results s @ [True], running := remove1 i (running s),
                   settled := settled s @ [i]\<rparr>"
    by (auto split: if_splits)
  from inv i show ?thesis
    unfolding trace_inv_def s' Resolves outcomes_snoc by auto
next
  case (Rejects i)
  with h have i: "i \<in> set (running s)"
    and s': "s' = s\<lparr>errors := errors s + 1, running := remove1 i (running s),
                   settled := settled s @ [i]\<rparr>"
    by (auto split: if_splits)
  from inv i show ?thesis
    unfolding trace_inv_def s' Rejects outcomes_snoc by auto
next
  case (Finally i)
  let ?u = "s\<lparr>activeCount := activeCount s - 1, settled := remove1 i (settled s)\<rparr>"
  from Finally h have s': "s' = runNext L n ?u" by (auto split: if_splits)
  from inv have "distinct (running ?u)"
    "set (map fst (outcomes es)) \<inter> set (running ?u) = {}"
    "set (map fst (outcomes es)) \<union> set (running ?u) = {..<taskIndex ?u}"
    unfolding trace_inv_def by simp_all
  from trace_inv_runNext [OF this, of L n] inv show ?thesis
    unfolding trace_inv_def s' Finally outcomes_snoc by simp
qed

lemma trace_inv_handlers:
  "trace_inv [] s0 \<Longrightarrow> handlers L n s0 es = Some s \<Longrightarrow> trace_inv es s"
proof (induction es arbitrary: s rule: rev_induct)
  case Nil
  then show ?case by simp
next
  case (snoc e es)
  from snoc.prems(2) obtain s' where s': "handlers L n s0 es = Some s'"
    and h: "handler L n s' e = Some s"
    by (auto simp: handlers_snoc split: option.splits)
  from snoc.IH [OF snoc.prems(1) s'] h show ?case by (rule trace_inv_handler)
qed

lemma trace_inv_run: "run_sched n L es = Some s \<Longrightarrow> trace_inv es s"
  unfolding run_sched_def using trace_inv_init by (rule trace_inv_handlers)

lemma fulfilled_counts:
  assumes run: "run_sched n L es = Some s" and p: "promise s = Fulfilled rs"
  shows "rs = results s \<and> length rs + errors s = n
         \<and> running s = [] \<and> taskIndex s = n
         \<and> distinct (map fst (outcomes es)) \<and> set (map fst (outcomes es)) = {..<n}
         \<and> length rs = length (filter snd (outcomes es))
         \<and> errors s = length (filter (\<lambda>x. \<not> snd x) (outcomes es))"
proof -
  from sched_inv_run [OF run] p have rs: "rs = results s"
    and n: "length (results s) + errors s = n"
    and le: "taskIndex s \<le> n"
    and cnt: "length (results s) + errors s + length (running s) = taskIndex s"
    unfolding sched_inv_def by auto
  from n le cnt have "length (running s) = 0" by linarith
  then have r: "running s = []" by simp
  with n cnt have t: "taskIndex s = n" by simp
  from trace_inv_run [OF run] r t rs n show ?thesis unfolding trace_inv_def by simp
qed

subsection \<open>The reports\<close>

lemma length_transactionTasks: "length (transactionTasks T k) = nat T"
  by (simp add: transactionTasks_def for_loop_eq)

lemma counter_final_txIndex: "txIndex (result (counter_final ledger d)) = txIndex d"
proof -
  from counter_final_char [of ledger d] have "counter_exit ledger d (counter_final ledger d)"
    by simp
  then show ?thesis
    unfolding counter_exit_def by (cases "ledger (attempt (counter_final ledger d))") auto
qed

lemma deposit_final_txIndex: "txIndex (result (deposit_final ledger d)) = txIndex d"
proof -
  from deposit_final_char [of ledger d] have "deposit_exit ledger d (deposit_final ledger d)"
    by simp
  then show ?thesis
    unfolding deposit_exit_def by (cases "ledger (attempt (deposit_final ledger d))") auto
qed

lemma worker_run_counts:
  assumes "worker_run eth artifacts ledger keys T wc address url initialCount c = Inr (e, c')"
  shows "\<exists>rs :: worker_result list. map txIndex rs = [0 ..< nat T]
            \<and> reportedSuccess e = length (filter success rs)
            \<and> reportedFailures e = length (filter (\<lambda>r. \<not> success r) rs)"
proof -
  from assms obtain rs where
    pa: "Promise_all
           (map (\<lambda>d. workerBenchmark eth artifacts (ledger (txIndex d)) d)
              (for_loop T 0 (workerData keys wc address url) [])) = Inr rs"
    and e: "worker_verify c initialCount (map Obj rs) = (e, c')"
    by (auto simp: worker_run_def split: sum.splits)
  note rs = worker_results_Inr [OF pa]
  have tx: "map txIndex rs = [0 ..< nat T]"
    unfolding rs by (simp add: comp_def counter_final_txIndex workerData_def map_idI)
  note t = forEach_increments_totals
    [of "map Obj rs" "\<lparr>totalSuccessfulIncrements = 0, totalFailedIncrements = 0\<rparr>"]
  from e t have "reportedSuccess e = length (filter success rs)"
    "reportedFailures e = length (filter (\<lambda>r. \<not> success r) rs)"
    by (auto simp: worker_verify_def Let_def succeeded_Obj failed_Obj)
  with tx show ?thesis by blast
qed

lemma deposit_run_counts:
  assumes "deposit_run eth artifacts ledger keys T wc address url amount initial c = Inr (e, c')"
  shows "\<exists>rs :: deposit_result list. map txIndex rs = [0 ..< nat T]
            \<and> successfulDeposits e = length (filter success rs)
            \<and> failedDeposits e = length (filter (\<lambda>r. \<not> success r) rs)"
proof -
  from assms obtain rs where
    res: "deposit_results eth artifacts ledger keys T wc address url amount = Inr rs"
    by (auto simp: deposit_run_def split: sum.splits)
  note rs = deposit_results_Inr [OF res]
  have tx: "map txIndex rs = [0 ..< nat T]"
    unfolding rs by (simp add: comp_def deposit_final_txIndex deposit_workerData_def map_idI)
  from deposit_run_total [OF res, of initial c] assms
  have "successfulDeposits e = length (filter success rs)"
    "failedDeposits e = length (filter (\<lambda>r. \<not> success r) rs)"
    by auto
  with tx show ?thesis by blast
qed

lemma filter_split_length:
  "length (filter P xs) + length (filter (\<lambda>x. \<not> P x) xs) = length xs"
  by (induction xs) simp_all

text \<open>
  C2. In every completed run the successes and the failures of the report add up to the
  number of tasks. In the scheduler benchmark the promise is fulfilled only when every
  task of the list has run exactly one of its \<^verbatim>\<open>.then\<close> and \<^verbatim>\<open>.catch\<close> handlers
  (\<open>outcomes es\<close> lists them with their task), the successes are the fulfilled tasks and
  the failures the rejected ones. In the two benchmarks with workers the results come
  back one per task, in the order of \<open>txIndex\<close>, and each is counted once, as a success
  or as a failure.
\<close>

theorem conservation:
  "(concurrency_run TOTAL_TRANSACTIONS signers concurrency es initialCount c = Some (e, c') \<longrightarrow>
      int (successfulTx e) + failedTx e = TOTAL_TRANSACTIONS
      \<and> distinct (map fst (outcomes es))
      \<and> set (map fst (outcomes es)) = {..<length (transactionTasks TOTAL_TRANSACTIONS signers)}
      \<and> successfulTx e = length (filter snd (outcomes es))
      \<and> (0 \<le> TOTAL_TRANSACTIONS \<longrightarrow>
           failedTx e = int (length (filter (\<lambda>x. \<not> snd x) (outcomes es)))))
   \<and> (worker_run eth artifacts ledger keys TOTAL_TRANSACTIONS workerCount address url initialCount c
        = Inr (e', c'') \<longrightarrow>
      reportedSuccess e' + reportedFailures e' = nat TOTAL_TRANSACTIONS
      \<and> (\<exists>rs :: worker_result list. map txIndex rs = [0 ..< nat TOTAL_TRANSACTIONS]
              \<and> reportedSuccess e' = length (filter success rs)
              \<and> reportedFailures e' = length (filter (\<lambda>r. \<not> success r) rs)))
   \<and> (deposit_run eth artifacts ledger keys TOTAL_TRANSACTIONS workerCount address url amount
        initialContractEthBalance c = Inr (e'', c''') \<longrightarrow>
      successfulDeposits e'' + failedDeposits e'' = nat TOTAL_TRANSACTIONS
      \<and> (\<exists>rs :: deposit_result list. map txIndex rs = [0 ..< nat TOTAL_TRANSACTIONS]
              \<and> successfulDeposits e'' = length (filter success rs)
              \<and> failedDeposits e'' = length (filter (\<lambda>r. \<not> success r) rs)))"
proof (intro conjI impI)
  assume a: "concurrency_run TOTAL_TRANSACTIONS signers concurrency es initialCount c
       = Some (e, c')"
  let ?n = "length (transactionTasks TOTAL_TRANSACTIONS signers)"
  from a obtain s rs where run: "run_sched ?n concurrency es = Some s"
    and p: "promise s = Fulfilled rs"
    and e: "concurrency_verify TOTAL_TRANSACTIONS c initialCount rs = (e, c')"
    by (auto simp: concurrency_run_def split: option.splits promise.splits)
  from fulfilled_counts [OF run p]
  have f: "length rs + errors s = ?n" "distinct (map fst (outcomes es))"
    "set (map fst (outcomes es)) = {..<?n}"
    "length rs = length (filter snd (outcomes es))"
    "errors s = length (filter (\<lambda>x. \<not> snd x) (outcomes es))"
    by blast+
  from e have st: "successfulTx e = length rs"
    and ft: "failedTx e = TOTAL_TRANSACTIONS - int (length rs)"
    by (auto simp: concurrency_verify_def Let_def)
  from st ft show "int (successfulTx e) + failedTx e = TOTAL_TRANSACTIONS" by simp
  from f(2) show "distinct (map fst (outcomes es))" .
  from f(3) show "set (map fst (outcomes es)) = {..<?n}" .
  from f(4) st show "successfulTx e = length (filter snd (outcomes es))" by simp
  show "failedTx e = int (length (filter (\<lambda>x. \<not> snd x) (outcomes es)))"
    if "0 \<le> TOTAL_TRANSACTIONS"
  proof -
    from that have "int ?n = TOTAL_TRANSACTIONS" by (simp add: length_transactionTasks)
    moreover from f(1) have "int (length rs) + int (errors s) = int ?n" by linarith
    ultimately show ?thesis using f(5) ft by simp
  qed
next
  assume a: "worker_run eth artifacts ledger keys TOTAL_TRANSACTIONS workerCount address url
       initialCount c = Inr (e', c'')"
  from worker_run_counts [OF a] obtain rs :: "worker_result list" where rs: "map txIndex rs = [0 ..< nat TOTAL_TRANSACTIONS]"
    "reportedSuccess e' = length (filter success rs)"
    "reportedFailures e' = length (filter (\<lambda>r. \<not> success r) rs)"
    by blast
  then show "\<exists>rs :: worker_result list. map txIndex rs = [0 ..< nat TOTAL_TRANSACTIONS]
              \<and> reportedSuccess e' = length (filter success rs)
              \<and> reportedFailures e' = length (filter (\<lambda>r. \<not> success r) rs)"
    by blast
  from rs(1) have "length rs = nat TOTAL_TRANSACTIONS" by (metis length_map length_upt minus_nat.diff_0)
  with rs(2,3) filter_split_length [of success rs]
  show "reportedSuccess e' + reportedFailures e' = nat TOTAL_TRANSACTIONS" by simp
next
  assume a: "deposit_run eth artifacts ledger keys TOTAL_TRANSACTIONS workerCount address url amount
        initialContractEthBalance c = Inr (e'', c''')"
  from deposit_run_counts [OF a] obtain rs :: "deposit_result list" where rs: "map txIndex rs = [0 ..< nat TOTAL_TRANSACTIONS]"
    "successfulDeposits e'' = length (filter success rs)"
    "failedDeposits e'' = length (filter (\<lambda>r. \<not> success r) rs)"
    by blast
  then show "\<exists>rs :: deposit_result list. map txIndex rs = [0 ..< nat TOTAL_TRANSACTIONS]
              \<and> successfulDeposits e'' = length (filter success rs)
              \<and> failedDeposits e'' = length (filter (\<lambda>r. \<not> success r) rs)"
    by blast
  from rs(1) have "length rs = nat TOTAL_TRANSACTIONS" by (metis length_map length_upt minus_nat.diff_0)
  with rs(2,3) filter_split_length [of success rs]
  show "successfulDeposits e'' + failedDeposits e'' = nat TOTAL_TRANSACTIONS" by simp
qed

lemma concurrency_run_example:
  "concurrency_run 2 20 1 events_example 0 chain_example
     = Some (\<lparr>verified = True, finalCount = 1, expectedCount = 1, successfulTx = 1,
              failedTx = 1\<rparr>, chain_example)"
  by (simp add: concurrency_run_def transactionTasks_def for_loop.simps events_example_def
      sched_eval concurrency_verify_def chain_example_def)

lemma worker_run_example:
  "worker_run ethers_example artifacts_example ledgers_example [key_example] 2 2 address_example
       url_example 0 chain_example
     = Inr (\<lparr>verified = True, finalCount = 1, expectedCount = 1, reportedSuccess = 1,
             reportedFailures = 1\<rparr>, chain_example)"
  by (simp add: worker_run_def for_loop.simps worker_eval worker_verify_def chain_example_def)

theorem conservation_witness:
  "concurrency_run 2 20 1 events_example 0 chain_example
     = Some (\<lparr>verified = True, finalCount = 1, expectedCount = 1, successfulTx = 1,
              failedTx = 1\<rparr>, chain_example)
   \<and> int 1 + 1 = (2::int)
   \<and> outcomes events_example = [(0, True), (1, False)]
   \<and> set (map fst (outcomes events_example)) = {..<length (transactionTasks 2 20)}
   \<and> (0::int) \<le> 2
   \<and> worker_run ethers_example artifacts_example ledgers_example [key_example] 2 2 address_example
       url_example 0 chain_example
     = Inr (\<lparr>verified = True, finalCount = 1, expectedCount = 1, reportedSuccess = 1,
             reportedFailures = 1\<rparr>, chain_example)
   \<and> (1::nat) + 1 = nat 2
   \<and> deposit_run ethers_example artifacts_example ledgers_example [key_example] 2 2 address_example
       url_example 100 5 chain_example
     = Inr (\<lparr>verified = True, finalContractEthBalance = 105, expectedContractEthBalance = 105,
             successfulDeposits = 1, failedDeposits = 1, totalDeposited = 100\<rparr>, chain_example)"
proof -
  note c = conservation [where TOTAL_TRANSACTIONS = 2 and signers = 20 and concurrency = 1
      and es = events_example and initialCount = 0 and c = chain_example
      and c' = chain_example and c'' = chain_example and c''' = chain_example
      and eth = ethers_example and artifacts = artifacts_example and ledger = ledgers_example
      and keys = "[key_example]"
      and workerCount = 2 and address = address_example and url = url_example
      and amount = 100 and initialContractEthBalance = 5
      and e = "\<lparr>verified = True, finalCount = 1, expectedCount = 1, successfulTx = 1,
              failedTx = 1\<rparr>"
      and e' = "\<lparr>verified = True, finalCount = 1, expectedCount = 1, reportedSuccess = 1,
             reportedFailures = 1\<rparr>"
      and e'' = "\<lparr>verified = True, finalContractEthBalance = 105,
             expectedContractEthBalance = 105, successfulDeposits = 1, failedDeposits = 1,
             totalDeposited = 100\<rparr>"]
  have o: "outcomes events_example = [(0, True), (1, False)]"
    by (simp add: outcomes_def events_example_def map_filter_simps)
  from c concurrency_run_example worker_run_example deposit_run_example
  have k: "set (map fst (outcomes events_example)) = {..<length (transactionTasks 2 20)}"
    by blast
  show ?thesis
    by (intro conjI)
      (rule k o concurrency_run_example worker_run_example deposit_run_example | simp)+
qed

section \<open>Containment of task failures\<close>

text \<open>
  C8 as stated fails. Before its retry loop, and outside any \<^verbatim>\<open>try\<close>, a worker builds the
  provider, the wallet and the contract object and reads the contract artifact; an error
  thrown there is not caught. With a well-formed key, address and URL, accepted by the
  library, and the artifact of the contract missing, \<open>getContractAbi\<close> throws: the task
  returns no result, \<^verbatim>\<open>Promise.all\<close> rejects and the run ends without a report.
\<close>

theorem setup_error_counterexample:
  "workerBenchmark ethers_example artifacts_missing (ledgers_example 0)
       (workerData [key_example] 2 address_example url_example 0)
     = Inl \<lparr>code = None, message = ''Could not load ABI for Counter.''\<rparr>
   \<and> worker_run ethers_example artifacts_missing ledgers_example [key_example] 2 2
       address_example url_example 0 chain_example
     = Inl \<lparr>code = None, message = ''Could not load ABI for Counter.''\<rparr>"
  by (simp add: worker_run_def for_loop.simps workerBenchmark_def getContractAbi_def
      artifacts_missing_def ethers_example_def workerData_def)

subsection \<open>Workers and benchmarks after the set-up\<close>

lemma workerBenchmark_setup:
  "workerBenchmark eth artifacts ledger d =
     (case worker_setup eth artifacts d of
        Inl e \<Rightarrow> Inl e
      | Inr k \<Rightarrow> Inr (result (counter_final ledger d)))"
  by (simp add: workerBenchmark_def worker_setup_def counter_final_def split: sum.splits)

lemma workerAccountBalance_setup:
  "workerAccountBalance eth artifacts ledger d =
     (case worker_setup eth artifacts d of
        Inl e \<Rightarrow> Inl e
      | Inr k \<Rightarrow> Inr (result (deposit_final ledger d)))"
  by (simp add: workerAccountBalance_def worker_setup_def deposit_final_def split: sum.splits)

lemma workerBenchmark_total:
  "worker_setup eth artifacts d = Inr k \<Longrightarrow>
   workerBenchmark eth artifacts ledger d = Inr (result (counter_final ledger d))"
  by (simp add: workerBenchmark_setup)

lemma workerAccountBalance_total:
  "worker_setup eth artifacts d = Inr k \<Longrightarrow>
   workerAccountBalance eth artifacts ledger d = Inr (result (deposit_final ledger d))"
  by (simp add: workerAccountBalance_setup)

lemma txIndex_workerData [simp]:
  "txIndex (workerData keys wc address url i) = i"
  "txIndex (deposit_workerData keys wc address url amount i) = i"
  by (simp_all add: workerData_def deposit_workerData_def)

lemma counter_success_iff:
  "success (result (counter_final ledger d))
     \<longleftrightarrow> (\<exists>h. ledger (attempt (counter_final ledger d)) = Confirmed (Some 1) h)"
proof -
  from counter_final_char [of ledger d] have "counter_exit ledger d (counter_final ledger d)"
    by simp
  then show ?thesis
    unfolding counter_exit_def by (cases "ledger (attempt (counter_final ledger d))") auto
qed

lemma deposit_success_iff:
  "success (result (deposit_final ledger d))
     \<longleftrightarrow> (\<exists>h. ledger (attempt (deposit_final ledger d)) = Confirmed (Some 1) h)"
proof -
  from deposit_final_char [of ledger d] have "deposit_exit ledger d (deposit_final ledger d)"
    by simp
  then show ?thesis
    unfolding deposit_exit_def by (cases "ledger (attempt (deposit_final ledger d))") auto
qed

lemma worker_run_total:
  assumes "\<forall>i < nat T. \<exists>k. worker_setup eth artifacts (workerData keys wc address url i) = Inr k"
  shows "worker_run eth artifacts ledger keys T wc address url initialCount c
     = Inr (worker_verify c initialCount
         (map Obj (map (\<lambda>i. result (counter_final (ledger i) (workerData keys wc address url i)))
            [0 ..< nat T])))"
proof -
  have "workerBenchmark eth artifacts (ledger (txIndex (workerData keys wc address url i)))
          (workerData keys wc address url i)
      = Inr (result (counter_final (ledger i) (workerData keys wc address url i)))"
    if "i \<in> set [0 ..< nat T]" for i
  proof -
    from that assms obtain k where
      "worker_setup eth artifacts (workerData keys wc address url i) = Inr k" by auto
    from workerBenchmark_total [OF this] show ?thesis by simp
  qed
  then have "map (\<lambda>d. workerBenchmark eth artifacts (ledger (txIndex d)) d)
          (map (workerData keys wc address url) [0 ..< nat T])
      = map Inr (map (\<lambda>i. result (counter_final (ledger i) (workerData keys wc address url i)))
          [0 ..< nat T])"
    unfolding map_map comp_def by (rule map_cong [OF refl])
  moreover have "for_loop T 0 (workerData keys wc address url) []
      = map (workerData keys wc address url) [0 ..< nat T]"
    by (simp add: for_loop_eq)
  ultimately have pa: "Promise_all
      (map (\<lambda>d. workerBenchmark eth artifacts (ledger (txIndex d)) d)
         (for_loop T 0 (workerData keys wc address url) []))
      = Inr (map (\<lambda>i. result (counter_final (ledger i) (workerData keys wc address url i)))
          [0 ..< nat T])"
    by (simp only: Promise_all_Inr)
  show ?thesis unfolding worker_run_def pa by simp
qed

lemma deposit_results_total:
  assumes "\<forall>i < nat T. \<exists>k.
     worker_setup eth artifacts (deposit_workerData keys wc address url amount i) = Inr k"
  shows "deposit_results eth artifacts ledger keys T wc address url amount
     = Inr (map (\<lambda>i. result (deposit_final (ledger i)
                 (deposit_workerData keys wc address url amount i))) [0 ..< nat T])"
proof -
  have "workerAccountBalance eth artifacts
          (ledger (txIndex (deposit_workerData keys wc address url amount i)))
          (deposit_workerData keys wc address url amount i)
      = Inr (result (deposit_final (ledger i) (deposit_workerData keys wc address url amount i)))"
    if "i \<in> set [0 ..< nat T]" for i
  proof -
    from that assms obtain k where
      "worker_setup eth artifacts (deposit_workerData keys wc address url amount i) = Inr k"
      by auto
    from workerAccountBalance_total [OF this] show ?thesis by simp
  qed
  then have "map (\<lambda>d. workerAccountBalance eth artifacts (ledger (txIndex d)) d)
          (map (deposit_workerData keys wc address url amount) [0 ..< nat T])
      = map Inr (map (\<lambda>i. result (deposit_final (ledger i)
                 (deposit_workerData keys wc address url amount i))) [0 ..< nat T])"
    unfolding map_map comp_def by (rule map_cong [OF refl])
  moreover have "for_loop T 0 (deposit_workerData keys wc address url amount) []
      = map (deposit_workerData keys wc address url amount) [0 ..< nat T]"
    by (simp add: for_loop_eq)
  ultimately show ?thesis
    unfolding deposit_results_def by (simp only: Promise_all_Inr)
qed

lemma worker_run_report:
  assumes "\<forall>i < nat T. \<exists>k. worker_setup eth artifacts (workerData keys wc address url i) = Inr k"
  shows "\<exists>e. worker_run eth artifacts ledger keys T wc address url initialCount c = Inr (e, c)
             \<and> reportedSuccess e + reportedFailures e = nat T
             \<and> ((\<forall>i k. \<exists>err. ledger i k = Throws err)
                  \<longrightarrow> reportedSuccess e = 0 \<and> reportedFailures e = nat T)"
proof -
  define rs where
    "rs = map (\<lambda>i. result (counter_final (ledger i) (workerData keys wc address url i)))
            [0 ..< nat T]"
  define t where
    "t = forEach_increments (map Obj rs)
           \<lparr>totalSuccessfulIncrements = 0, totalFailedIncrements = 0\<rparr>"
  have len: "length rs = nat T" by (simp add: rs_def)
  obtain e where e: "worker_verify c initialCount (map Obj rs) = (e, c)"
    and s: "reportedSuccess e = totalSuccessfulIncrements t"
    and f: "reportedFailures e = totalFailedIncrements t"
    by (simp add: worker_verify_def Let_def t_def)
  note tot = forEach_increments_totals
    [of "map Obj rs" "\<lparr>totalSuccessfulIncrements = 0, totalFailedIncrements = 0\<rparr>"]
  from tot s f have cnt: "reportedSuccess e = length (filter success rs)"
    "reportedFailures e = length (filter (\<lambda>r. \<not> success r) rs)"
    by (simp_all add: t_def succeeded_Obj failed_Obj)
  with filter_split_length [of success rs] len
  have sum: "reportedSuccess e + reportedFailures e = nat T" by simp
  have "reportedSuccess e = 0 \<and> reportedFailures e = nat T"
    if down: "\<forall>i k. \<exists>err. ledger i k = Throws err"
  proof -
    have "\<not> success r" if "r \<in> set rs" for r
    proof -
      from that obtain i where
        r: "r = result (counter_final (ledger i) (workerData keys wc address url i))"
        by (auto simp: rs_def)
      from down obtain err where
        "ledger i (attempt (counter_final (ledger i) (workerData keys wc address url i)))
           = Throws err"
        by blast
      then show ?thesis unfolding r counter_success_iff by simp
    qed
    then have "filter success rs = []" by (simp add: filter_empty_conv)
    with cnt sum show ?thesis by simp
  qed
  moreover from worker_run_total [where eth = eth and artifacts = artifacts and ledger = ledger
      and keys = keys and T = T and wc = wc and address = address and url = url
      and initialCount = initialCount and c = c, OF assms] e
  have "worker_run eth artifacts ledger keys T wc address url initialCount c = Inr (e, c)"
    by (simp only: rs_def)
  ultimately show ?thesis using sum by blast
qed

lemma deposit_run_report:
  assumes "\<forall>i < nat T. \<exists>k.
     worker_setup eth artifacts (deposit_workerData keys wc address url amount i) = Inr k"
  shows "\<exists>e. deposit_run eth artifacts ledger keys T wc address url amount initial c = Inr (e, c)
             \<and> successfulDeposits e + failedDeposits e = nat T
             \<and> ((\<forall>i k. \<exists>err. ledger i k = Throws err)
                  \<longrightarrow> successfulDeposits e = 0 \<and> failedDeposits e = nat T)"
proof -
  let ?rs = "map (\<lambda>i. result (deposit_final (ledger i)
                 (deposit_workerData keys wc address url amount i))) [0 ..< nat T]"
  note res = deposit_results_total [where eth = eth and artifacts = artifacts
      and ledger = ledger and keys = keys
      and T = T and wc = wc and address = address and url = url and amount = amount, OF assms]
  from deposit_run_total [OF res, of initial c] obtain e where
    e: "deposit_run eth artifacts ledger keys T wc address url amount initial c = Inr (e, c)"
    and cnt: "successfulDeposits e = length (filter success ?rs)"
      "failedDeposits e = length (filter (\<lambda>r. \<not> success r) ?rs)"
    by blast
  with filter_split_length [of success ?rs]
  have sum: "successfulDeposits e + failedDeposits e = nat T" by simp
  have "successfulDeposits e = 0 \<and> failedDeposits e = nat T"
    if down: "\<forall>i k. \<exists>err. ledger i k = Throws err"
  proof -
    have "\<not> success r" if "r \<in> set ?rs" for r
    proof -
      from that obtain i where
        r: "r = result (deposit_final (ledger i)
                 (deposit_workerData keys wc address url amount i))" by auto
      from down obtain err where
        "ledger i (attempt (deposit_final (ledger i)
             (deposit_workerData keys wc address url amount i))) = Throws err"
        by blast
      then show ?thesis unfolding r deposit_success_iff by simp
    qed
    then have "filter success ?rs = []" by (simp add: filter_empty_conv)
    with cnt sum show ?thesis by simp
  qed
  with e sum show ?thesis by auto
qed

subsection \<open>The scheduler resolves\<close>

lemma potential_launch:
  "taskIndex s \<le> n \<Longrightarrow> activeCount s \<le> max 0 L \<Longrightarrow> potential n (launch L n s) = potential n s"
proof -
  assume a: "taskIndex s \<le> n" "activeCount s \<le> max 0 L"
  from launch_admits [of s L n] have le: "taskIndex s \<le> taskIndex (launch L n s)"
    and r: "running (launch L n s) = running s @ [taskIndex s ..< taskIndex (launch L n s)]"
    by simp_all
  from launch_bounds [OF a] have "taskIndex (launch L n s) \<le> n" by simp
  with le r launch_keeps [of L n s] show ?thesis by (simp add: potential_def)
qed

lemma potential_runNext:
  "taskIndex s \<le> n \<Longrightarrow> activeCount s \<le> max 0 L \<Longrightarrow> potential n (runNext L n s) = potential n s"
  by (simp add: runNext_def potential_launch) (simp add: potential_def resolve_fields)

lemma potential_handler:
  assumes inv: "sched_inv n L s" and h: "handler L n s e = Some s'"
  shows "Suc (potential n s') = potential n s"
proof (cases e)
  case (Resolves i)
  with h have i: "i \<in> set (running s)"
    and s': "s' = s\<lparr>results := results s @ [True], running := remove1 i (running s),
                   settled := settled s @ [i]\<rparr>"
    by (auto split: if_splits)
  from i have "length (running s) = Suc (length (remove1 i (running s)))"
    using length_pos_if_in_set [OF i] by (simp add: length_remove1)
  then show ?thesis unfolding s' by (simp add: potential_def)
next
  case (Rejects i)
  with h have i: "i \<in> set (running s)"
    and s': "s' = s\<lparr>errors := errors s + 1, running := remove1 i (running s),
                   settled := settled s @ [i]\<rparr>"
    by (auto split: if_splits)
  from i have "length (running s) = Suc (length (remove1 i (running s)))"
    using length_pos_if_in_set [OF i] by (simp add: length_remove1)
  then show ?thesis unfolding s' by (simp add: potential_def)
next
  case (Finally i)
  let ?u = "s\<lparr>activeCount := activeCount s - 1, settled := remove1 i (settled s)\<rparr>"
  from Finally h have i: "i \<in> set (settled s)" and s': "s' = runNext L n ?u"
    by (auto split: if_splits)
  from i have len: "length (settled s) = Suc (length (remove1 i (settled s)))"
    using length_pos_if_in_set [OF i] by (simp add: length_remove1)
  from inv have "taskIndex ?u \<le> n" "activeCount ?u \<le> max 0 L"
    unfolding sched_inv_def by simp_all
  from potential_runNext [OF this] len show ?thesis
    unfolding s' by (simp add: potential_def)
qed

lemma potential_handlers:
  "sched_inv n L s \<Longrightarrow> handlers L n s es = Some s' \<Longrightarrow>
   length es + potential n s' = potential n s"
proof (induction es arbitrary: s)
  case Nil
  then show ?case by simp
next
  case (Cons e es)
  from Cons.prems(2) obtain u where h: "handler L n s e = Some u"
    and r: "handlers L n u es = Some s'"
    by (auto split: option.splits)
  from sched_inv_handler [OF Cons.prems(1) h] have "sched_inv n L u" .
  from Cons.IH [OF this r] potential_handler [OF Cons.prems(1) h] show ?case by simp
qed

lemma potential_run:
  assumes "run_sched n L es = Some s"
  shows "length es + potential n s = 2 * n"
proof -
  have "potential n (runTasksWithConcurrency n L) = potential n init_sched"
    unfolding runTasksWithConcurrency_def
    by (rule potential_runNext) (simp_all add: init_sched_def)
  also have "\<dots> = 2 * n" by (simp add: potential_def init_sched_def)
  finally have "potential n (runTasksWithConcurrency n L) = 2 * n" .
  with potential_handlers [OF sched_inv_init, of L n es s] assms show ?thesis
    by (simp add: run_sched_def)
qed

lemma sched_completes:
  assumes run: "run_sched n L es = Some s" and L: "0 < L"
  shows "length es \<le> 2 * n
         \<and> (promise s = Pending \<or> promise s = Fulfilled (results s))
         \<and> (running s = [] \<and> settled s = [] \<or> length es = 2 * n
              \<longrightarrow> promise s = Fulfilled (results s) \<and> length (results s) + errors s = n)"
proof -
  note p = potential_run [OF run]
  from sched_inv_run [OF run] have inv: "sched_inv n L s" .
  from inv have pf: "promise s = Pending
      \<or> promise s = Fulfilled (results s) \<and> length (results s) + errors s = n"
    and idle: "running s = [] \<and> settled s = [] \<longrightarrow> promise s \<noteq> Pending"
    using L unfolding sched_inv_def by simp_all
  have "running s = [] \<and> settled s = []" if "length es = 2 * n"
    using p that by (simp add: potential_def)
  with pf idle p show ?thesis by auto
qed

text \<open>
  C8, amended. A worker whose set-up succeeds (the three constructors of the library and
  \<open>getContractAbi\<close> all return) always returns a result: whatever error an attempt throws
  inside the retry loop, retryable or not, is caught there, and the result has \<open>success\<close>
  true exactly when the last attempt was confirmed with status 1. A worker whose set-up
  throws rejects with that error. With a non-empty list of keys, a positive number of
  workers and the set-up succeeding for every task, each worker benchmark completes and
  reports, with successes and failures adding up to the number of tasks, also when every
  attempt of every task throws (then all tasks are reported failed). In the scheduler
  benchmark with a positive limit, a run takes at most two handler steps per task,
  fulfilled or rejected alike, and its promise is fulfilled, with every task counted, as
  soon as no task is in flight. The errors thrown by an attempt are \<^verbatim>\<open>Error\<close> objects with a
  message string, as the library throws them; the statement covers no other thrown value.
\<close>

theorem failures_contained:
  "(worker_setup eth artifacts d = Inr k \<longrightarrow>
      workerBenchmark eth artifacts ledger' d = Inr (result (counter_final ledger' d))
      \<and> (success (result (counter_final ledger' d))
           \<longleftrightarrow> (\<exists>h. ledger' (attempt (counter_final ledger' d)) = Confirmed (Some 1) h)))
   \<and> (worker_setup eth artifacts d' = Inr k' \<longrightarrow>
      workerAccountBalance eth artifacts ledger' d' = Inr (result (deposit_final ledger' d'))
      \<and> (success (result (deposit_final ledger' d'))
           \<longleftrightarrow> (\<exists>h. ledger' (attempt (deposit_final ledger' d')) = Confirmed (Some 1) h)))
   \<and> (worker_setup eth0 artifacts0 d = Inl err \<longrightarrow>
      workerBenchmark eth0 artifacts0 ledger' d = Inl err)
   \<and> (worker_setup eth0 artifacts0 d' = Inl err' \<longrightarrow>
      workerAccountBalance eth0 artifacts0 ledger' d' = Inl err')
   \<and> (keys \<noteq> [] \<and> 0 < workerCount
        \<and> (\<forall>i < nat TOTAL_TRANSACTIONS. \<exists>k.
              worker_setup eth artifacts (workerData keys workerCount address url i) = Inr k) \<longrightarrow>
      (\<exists>e. worker_run eth artifacts ledger keys TOTAL_TRANSACTIONS workerCount address url
              initialCount c = Inr (e, c)
            \<and> reportedSuccess e + reportedFailures e = nat TOTAL_TRANSACTIONS
            \<and> ((\<forall>i k. \<exists>err. ledger i k = Throws err)
                 \<longrightarrow> reportedSuccess e = 0 \<and> reportedFailures e = nat TOTAL_TRANSACTIONS)))
   \<and> (keys \<noteq> [] \<and> 0 < workerCount
        \<and> (\<forall>i < nat TOTAL_TRANSACTIONS. \<exists>k.
              worker_setup eth artifacts
                (deposit_workerData keys workerCount address url amount i) = Inr k) \<longrightarrow>
      (\<exists>e. deposit_run eth artifacts ledger keys TOTAL_TRANSACTIONS workerCount address url
              amount initialContractEthBalance c = Inr (e, c)
            \<and> successfulDeposits e + failedDeposits e = nat TOTAL_TRANSACTIONS
            \<and> ((\<forall>i k. \<exists>err. ledger i k = Throws err)
                 \<longrightarrow> successfulDeposits e = 0 \<and> failedDeposits e = nat TOTAL_TRANSACTIONS)))
   \<and> (0 < limit \<and> run_sched totalTasks limit es = Some s \<longrightarrow>
      length es \<le> 2 * totalTasks
      \<and> (promise s = Pending \<or> promise s = Fulfilled (results s))
      \<and> (running s = [] \<and> settled s = [] \<or> length es = 2 * totalTasks
           \<longrightarrow> promise s = Fulfilled (results s)
               \<and> length (results s) + errors s = totalTasks))"
proof (intro conjI impI)
  assume "worker_setup eth artifacts d = Inr k"
  then show "workerBenchmark eth artifacts ledger' d = Inr (result (counter_final ledger' d))"
    by (rule workerBenchmark_total)
  show "success (result (counter_final ledger' d))
           \<longleftrightarrow> (\<exists>h. ledger' (attempt (counter_final ledger' d)) = Confirmed (Some 1) h)"
    by (rule counter_success_iff)
next
  assume "worker_setup eth artifacts d' = Inr k'"
  then show "workerAccountBalance eth artifacts ledger' d'
      = Inr (result (deposit_final ledger' d'))"
    by (rule workerAccountBalance_total)
  show "success (result (deposit_final ledger' d'))
           \<longleftrightarrow> (\<exists>h. ledger' (attempt (deposit_final ledger' d')) = Confirmed (Some 1) h)"
    by (rule deposit_success_iff)
next
  assume "worker_setup eth0 artifacts0 d = Inl err"
  then show "workerBenchmark eth0 artifacts0 ledger' d = Inl err"
    by (simp add: workerBenchmark_setup)
next
  assume "worker_setup eth0 artifacts0 d' = Inl err'"
  then show "workerAccountBalance eth0 artifacts0 ledger' d' = Inl err'"
    by (simp add: workerAccountBalance_setup)
next
  assume "keys \<noteq> [] \<and> 0 < workerCount
        \<and> (\<forall>i < nat TOTAL_TRANSACTIONS. \<exists>k.
              worker_setup eth artifacts (workerData keys workerCount address url i) = Inr k)"
  then have "\<forall>i < nat TOTAL_TRANSACTIONS. \<exists>k.
      worker_setup eth artifacts (workerData keys workerCount address url i) = Inr k"
    by simp
  then show "\<exists>e. worker_run eth artifacts ledger keys TOTAL_TRANSACTIONS workerCount address url
              initialCount c = Inr (e, c)
            \<and> reportedSuccess e + reportedFailures e = nat TOTAL_TRANSACTIONS
            \<and> ((\<forall>i k. \<exists>err. ledger i k = Throws err)
                 \<longrightarrow> reportedSuccess e = 0 \<and> reportedFailures e = nat TOTAL_TRANSACTIONS)"
    by (rule worker_run_report)
next
  assume "keys \<noteq> [] \<and> 0 < workerCount
        \<and> (\<forall>i < nat TOTAL_TRANSACTIONS. \<exists>k.
              worker_setup eth artifacts
                (deposit_workerData keys workerCount address url amount i) = Inr k)"
  then have "\<forall>i < nat TOTAL_TRANSACTIONS. \<exists>k.
      worker_setup eth artifacts (deposit_workerData keys workerCount address url amount i)
        = Inr k"
    by simp
  then show "\<exists>e. deposit_run eth artifacts ledger keys TOTAL_TRANSACTIONS workerCount address url
              amount initialContractEthBalance c = Inr (e, c)
            \<and> successfulDeposits e + failedDeposits e = nat TOTAL_TRANSACTIONS
            \<and> ((\<forall>i k. \<exists>err. ledger i k = Throws err)
                 \<longrightarrow> successfulDeposits e = 0 \<and> failedDeposits e = nat TOTAL_TRANSACTIONS)"
    by (rule deposit_run_report)
next
  assume a: "0 < limit \<and> run_sched totalTasks limit es = Some s"
  from sched_completes [of totalTasks limit es s] a
  have c: "length es \<le> 2 * totalTasks
         \<and> (promise s = Pending \<or> promise s = Fulfilled (results s))
         \<and> (running s = [] \<and> settled s = [] \<or> length es = 2 * totalTasks
              \<longrightarrow> promise s = Fulfilled (results s)
                  \<and> length (results s) + errors s = totalTasks)"
    by simp
  from c show "length es \<le> 2 * totalTasks" by simp
  from c show "promise s = Pending \<or> promise s = Fulfilled (results s)" by simp
  from c show "promise s = Fulfilled (results s)"
    if "running s = [] \<and> settled s = [] \<or> length es = 2 * totalTasks"
    using that by blast
  from c show "length (results s) + errors s = totalTasks"
    if "running s = [] \<and> settled s = [] \<or> length es = 2 * totalTasks"
    using that by blast
qed

lemma sched_rejected_run: "run_sched 2 1 events_rejected = Some sched_rejected"
  by (simp add: sched_eval events_rejected_def sched_rejected_def)

lemma worker_setup_example:
  "worker_setup ethers_example artifacts_example d
     = Inr (ContractAt (contractAddress d) abi_example
         (Signer (privateKey d) (Provider (rpcUrl d))))"
  by (simp add: worker_setup_def ethers_example_def artifacts_example_def getContractAbi_def)

lemma worker_setup_missing:
  "worker_setup ethers_example artifacts_missing d
     = Inl \<lparr>code = None, message = ''Could not load ABI for '' @ contractName d @ ''.''\<rparr>"
  by (simp add: worker_setup_def ethers_example_def artifacts_missing_def getContractAbi_def)

theorem failures_contained_witness:
  "worker_setup ethers_example artifacts_example data_example = Inr contract_example
   \<and> workerBenchmark ethers_example artifacts_example ledger_down data_example
       = Inr (result (counter_final ledger_down data_example))
   \<and> \<not> success (result (counter_final ledger_down data_example))
   \<and> worker_setup ethers_example artifacts_example deposit_data_example = Inr contract_example
   \<and> workerAccountBalance ethers_example artifacts_example ledger_down deposit_data_example
       = Inr (result (deposit_final ledger_down deposit_data_example))
   \<and> \<not> success (result (deposit_final ledger_down deposit_data_example))
   \<and> worker_setup ethers_example artifacts_missing data_example
       = Inl \<lparr>code = None, message = ''Could not load ABI for Counter.''\<rparr>
   \<and> workerBenchmark ethers_example artifacts_missing ledger_down data_example
       = Inl \<lparr>code = None, message = ''Could not load ABI for Counter.''\<rparr>
   \<and> worker_setup ethers_example artifacts_missing deposit_data_example
       = Inl \<lparr>code = None, message = ''Could not load ABI for AccountBalance.''\<rparr>
   \<and> workerAccountBalance ethers_example artifacts_missing ledger_down deposit_data_example
       = Inl \<lparr>code = None, message = ''Could not load ABI for AccountBalance.''\<rparr>
   \<and> [key_example] \<noteq> [] \<and> (0::nat) < 2
   \<and> worker_setup ethers_example artifacts_example
         (workerData [key_example] 2 address_example url_example 0) = Inr contract_example
   \<and> worker_setup ethers_example artifacts_example
         (workerData [key_example] 2 address_example url_example 1) = Inr contract_example
   \<and> (\<exists>e. worker_run ethers_example artifacts_example ledgers_down [key_example] 2 2
             address_example url_example 0 chain_example = Inr (e, chain_example)
           \<and> reportedSuccess e = 0 \<and> reportedFailures e = 2)
   \<and> worker_setup ethers_example artifacts_example
         (deposit_workerData [key_example] 2 address_example url_example 100 0)
       = Inr contract_example
   \<and> worker_setup ethers_example artifacts_example
         (deposit_workerData [key_example] 2 address_example url_example 100 1)
       = Inr contract_example
   \<and> (\<exists>e. deposit_run ethers_example artifacts_example ledgers_down [key_example] 2 2
             address_example url_example 100 5 chain_example = Inr (e, chain_example)
           \<and> successfulDeposits e = 0 \<and> failedDeposits e = 2)
   \<and> (0::int) < 1 \<and> run_sched 2 1 events_rejected = Some sched_rejected
   \<and> length events_rejected = 2 * 2
   \<and> promise sched_rejected = Fulfilled (results sched_rejected)
   \<and> length (results sched_rejected) + errors sched_rejected = 2"
proof -
  note f = failures_contained [where eth = ethers_example and artifacts = artifacts_example
      and eth0 = ethers_example and artifacts0 = artifacts_missing
      and k = contract_example and k' = contract_example
      and err = "\<lparr>code = None, message = ''Could not load ABI for Counter.''\<rparr>"
      and err' = "\<lparr>code = None, message = ''Could not load ABI for AccountBalance.''\<rparr>"
      and d = data_example and d' = deposit_data_example and ledger' = ledger_down
      and ledger = ledgers_down and keys = "[key_example]" and TOTAL_TRANSACTIONS = 2
      and workerCount = 2 and address = address_example and url = url_example
      and initialCount = 0 and c = chain_example and amount = 100
      and initialContractEthBalance = 5 and limit = 1 and totalTasks = 2
      and es = events_rejected and s = sched_rejected]
  have s1: "worker_setup ethers_example artifacts_example data_example = Inr contract_example"
    "worker_setup ethers_example artifacts_example deposit_data_example = Inr contract_example"
    by (simp_all add: worker_setup_example data_example_def deposit_data_example_def
        contract_example_def)
  have s2: "worker_setup ethers_example artifacts_missing data_example
       = Inl \<lparr>code = None, message = ''Could not load ABI for Counter.''\<rparr>"
    "worker_setup ethers_example artifacts_missing deposit_data_example
       = Inl \<lparr>code = None, message = ''Could not load ABI for AccountBalance.''\<rparr>"
    by (simp_all add: worker_setup_missing data_example_def deposit_data_example_def)
  have s3: "worker_setup ethers_example artifacts_example
         (workerData [key_example] 2 address_example url_example i) = Inr contract_example"
    "worker_setup ethers_example artifacts_example
         (deposit_workerData [key_example] 2 address_example url_example 100 i)
       = Inr contract_example" for i
    by (simp_all add: worker_setup_example workerData_def deposit_workerData_def
        contract_example_def)
  have down: "\<forall>i k. \<exists>err. ledgers_down i k = Throws err"
    by (simp add: ledgers_down_def)
  have down': "\<And>k h. ledger_down k \<noteq> Confirmed (Some 1) h"
    by (simp add: ledger_down_def)
  from f s1 down' have 1:
    "workerBenchmark ethers_example artifacts_example ledger_down data_example
       = Inr (result (counter_final ledger_down data_example))"
    "\<not> success (result (counter_final ledger_down data_example))"
    "workerAccountBalance ethers_example artifacts_example ledger_down deposit_data_example
       = Inr (result (deposit_final ledger_down deposit_data_example))"
    "\<not> success (result (deposit_final ledger_down deposit_data_example))"
    by blast+
  from f s2 have 2:
    "workerBenchmark ethers_example artifacts_missing ledger_down data_example
       = Inl \<lparr>code = None, message = ''Could not load ABI for Counter.''\<rparr>"
    "workerAccountBalance ethers_example artifacts_missing ledger_down deposit_data_example
       = Inl \<lparr>code = None, message = ''Could not load ABI for AccountBalance.''\<rparr>"
    by blast+
  have h: "[key_example] \<noteq> [] \<and> (0::nat) < 2
      \<and> (\<forall>i < nat 2. \<exists>k. worker_setup ethers_example artifacts_example
            (workerData [key_example] 2 address_example url_example i) = Inr k)"
    "[key_example] \<noteq> [] \<and> (0::nat) < 2
      \<and> (\<forall>i < nat 2. \<exists>k. worker_setup ethers_example artifacts_example
            (deposit_workerData [key_example] 2 address_example url_example 100 i) = Inr k)"
    by (simp_all add: s3)
  from f h(1) down have 3:
    "\<exists>e. worker_run ethers_example artifacts_example ledgers_down [key_example] 2 2
             address_example url_example 0 chain_example = Inr (e, chain_example)
           \<and> reportedSuccess e = 0 \<and> reportedFailures e = 2"
    by (metis nat_numeral)
  from f h(2) down have 4:
    "\<exists>e. deposit_run ethers_example artifacts_example ledgers_down [key_example] 2 2
             address_example url_example 100 5 chain_example = Inr (e, chain_example)
           \<and> successfulDeposits e = 0 \<and> failedDeposits e = 2"
    by (metis nat_numeral)
  have 5: "length events_rejected = 2 * 2" by (simp add: events_rejected_def)
  from f sched_rejected_run 5 have 6: "promise sched_rejected = Fulfilled (results sched_rejected)"
    "length (results sched_rejected) + errors sched_rejected = 2"
    by simp_all
  show ?thesis
    by (intro conjI) (rule s1 s2 s3 1 2 3 4 5 6 sched_rejected_run | simp)+
qed

end
